theory Spec2Isabelle
  imports Main "HOL-Library.Sublist" "HOL-Library.Word"
begin

section \<open>JavaScript strings\<close>

text \<open>
  A JavaScript string is a sequence of UTF-16 code units, numbers of 16 bits. The string
  methods and the regular expressions of the routes (none has the flag \<open>u\<close>) work on code
  units. The texts that the source writes as literals are Basic Latin but for two characters
  given by their numbers below; \<open>js\<close> turns a literal of Basic Latin into its code units.
\<close>

type_synonym unit16 = "16 word"

type_synonym jstring = "unit16 list"

definition js :: "string \<Rightarrow> jstring" where
  "js s = map of_char s"

text \<open>
  The white space of \<open>String.prototype.trim\<close> and of the class \<open>\s\<close>: the code points
  \<open>WhiteSpace\<close> and \<open>LineTerminator\<close> of ECMA-262, which are tab, line feed, vertical
  tab, form feed, carriage return, space, no-break space U+00A0, the byte order mark U+FEFF,
  the line and paragraph separators U+2028 and U+2029, and the other space separators of
  Unicode (from version 6.3 on): U+1680, U+2000 to U+200A, U+202F, U+205F, U+3000. All are
  single code units.
\<close>

definition isSpace :: "unit16 \<Rightarrow> bool" where
  "isSpace c \<longleftrightarrow>
     c \<in> {0x09, 0x0A, 0x0B, 0x0C, 0x0D, 0x20, 0xA0, 0x1680, 0x2028, 0x2029, 0x202F, 0x205F,
           0x3000, 0xFEFF}
     \<or> (0x2000 \<le> c \<and> c \<le> 0x200A)"

definition trim :: "jstring \<Rightarrow> jstring" where
  "trim s = rev (dropWhile isSpace (rev (dropWhile isSpace s)))"

text \<open>\<open>s.includes(t)\<close>: \<open>t\<close> occurs in \<open>s\<close> as a contiguous run.\<close>

fun includes_js :: "jstring \<Rightarrow> jstring \<Rightarrow> bool" where
  "includes_js [] t = (t = [])"
| "includes_js (c # cs) t = (prefix t (c # cs) \<or> includes_js cs t)"

text \<open>\<open>s.split(sep)\<close> for a separator of one code unit: never the empty list.\<close>

fun split :: "unit16 \<Rightarrow> jstring \<Rightarrow> jstring list" where
  "split sep [] = [[]]"
| "split sep (c # cs) =
     (if c = sep then [] # split sep cs
      else (case split sep cs of [] \<Rightarrow> [[c]] | p # ps \<Rightarrow> (c # p) # ps))"

fun join :: "jstring \<Rightarrow> jstring list \<Rightarrow> jstring" where
  "join sep [] = []"
| "join sep [p] = p"
| "join sep (p # q # ps) = p @ sep @ join sep (q # ps)"

text \<open>
  \<open>s.slice(n)\<close> for \<open>0 \<le> n\<close> is \<^term>\<open>drop n s\<close>; \<open>xs.slice(0, n)\<close> is \<^term>\<open>take n xs\<close>.
  \<open>String.prototype.toLowerCase\<close> follows the case mappings of the Unicode data of the
  runtime; it is taken from the environment of a request (below), like \<open>JSON.parse\<close>.
\<close>

section \<open>JSON values and \<open>JSON.parse\<close>\<close>

datatype json =
    JNull
  | JBool bool
  | JNumber jstring
  | JString jstring
  | JArray "json list"
  | JObject "(jstring \<times> json) list"

text \<open>
  \<open>JSON.parse\<close> belongs to the JavaScript runtime. The functions of the route take it as a
  parameter \<open>parse\<close>, \<^term>\<open>None\<close> standing for a thrown \<open>SyntaxError\<close>, so that what is
  proved about them holds for every parser. \<open>json_parse\<close> below is a parser of the JSON
  grammar of ECMA-404 on code units, used to run the route on concrete replies. An object
  keeps its members in their order, repeated keys included; a number keeps its lexeme; an
  escape \<open>\uXXXX\<close> gives the code unit of that number, a surrogate as any other.
\<close>

definition json_ws :: "unit16 \<Rightarrow> bool" where
  "json_ws c \<longleftrightarrow> c \<in> {0x20, 0x09, 0x0A, 0x0D}"

definition skip_ws :: "jstring \<Rightarrow> jstring" where
  "skip_ws s = dropWhile json_ws s"

definition isDigit :: "unit16 \<Rightarrow> bool" where
  "isDigit c \<longleftrightarrow> of_char (CHR ''0'') \<le> c \<and> c \<le> of_char (CHR ''9'')"

definition hexval :: "unit16 \<Rightarrow> nat option" where
  "hexval c =
     (let n = unat c in
      if 48 \<le> n \<and> n \<le> 57 then Some (n - 48)
      else if 65 \<le> n \<and> n \<le> 70 then Some (n - 55)
      else if 97 \<le> n \<and> n \<le> 102 then Some (n - 87)
      else None)"

definition unescape :: "unit16 \<Rightarrow> unit16 option" where
  "unescape e =
     (if e = 0x22 \<or> e = 0x5C \<or> e = of_char (CHR ''/'') then Some e
      else if e = of_char (CHR ''b'') then Some 0x08
      else if e = of_char (CHR ''f'') then Some 0x0C
      else if e = of_char (CHR ''n'') then Some 0x0A
      else if e = of_char (CHR ''r'') then Some 0x0D
      else if e = of_char (CHR ''t'') then Some 0x09
      else None)"

text \<open>The code units of a string literal after its opening quote, up to the closing one.\<close>

fun parse_chars :: "jstring \<Rightarrow> (jstring \<times> jstring) option" where
  "parse_chars [] = None"
| "parse_chars (c # cs) =
     (if c = 0x22 then Some ([], cs)
      else if c = 0x5C then
        (case cs of
           [] \<Rightarrow> None
         | e # es \<Rightarrow>
             if e = of_char (CHR ''u'') then
               (case es of
                  h1 # h2 # h3 # h4 # r \<Rightarrow>
                    (case (hexval h1, hexval h2, hexval h3, hexval h4) of
                       (Some a, Some b, Some c', Some d) \<Rightarrow>
                         (case parse_chars r of
                            Some (t, r') \<Rightarrow> Some (of_nat (4096 * a + 256 * b + 16 * c' + d) # t, r')
                          | None \<Rightarrow> None)
                     | _ \<Rightarrow> None)
                | _ \<Rightarrow> None)
             else
               (case (unescape e, parse_chars es) of
                  (Some u, Some (t, r')) \<Rightarrow> Some (u # t, r')
                | _ \<Rightarrow> None))
      else if c < 0x20 then None
      else (case parse_chars cs of Some (t, r') \<Rightarrow> Some (c # t, r') | None \<Rightarrow> None))"

definition digits1 :: "jstring \<Rightarrow> (jstring \<times> jstring) option" where
  "digits1 s = (if takeWhile isDigit s = [] then None
                else Some (takeWhile isDigit s, dropWhile isDigit s))"

definition parse_int :: "jstring \<Rightarrow> (jstring \<times> jstring) option" where
  "parse_int s =
     (case s of
        [] \<Rightarrow> None
      | c # cs \<Rightarrow> if c = of_char (CHR ''0'') then Some ([c], cs) else digits1 s)"

definition parse_frac :: "jstring \<Rightarrow> (jstring \<times> jstring) option" where
  "parse_frac s =
     (case s of
        [] \<Rightarrow> Some ([], s)
      | c # cs \<Rightarrow>
          if c = of_char (CHR ''.'') then
            (case digits1 cs of Some (d, r) \<Rightarrow> Some (c # d, r) | None \<Rightarrow> None)
          else Some ([], s))"

definition parse_exp :: "jstring \<Rightarrow> (jstring \<times> jstring) option" where
  "parse_exp s =
     (case s of
        [] \<Rightarrow> Some ([], s)
      | c # cs \<Rightarrow>
          if c = of_char (CHR ''e'') \<or> c = of_char (CHR ''E'') then
            (case cs of
               [] \<Rightarrow> None
             | g # gs \<Rightarrow>
                 if g = of_char (CHR ''+'') \<or> g = of_char (CHR ''-'') then
                   (case digits1 gs of Some (d, r) \<Rightarrow> Some (c # g # d, r) | None \<Rightarrow> None)
                 else
                   (case digits1 cs of Some (d, r) \<Rightarrow> Some (c # d, r) | None \<Rightarrow> None))
          else Some ([], s))"

definition parse_number :: "jstring \<Rightarrow> (jstring \<times> jstring) option" where
  "parse_number s =
     (let (sign, s1) = (case s of [] \<Rightarrow> ([], s)
                        | c # cs \<Rightarrow> if c = of_char (CHR ''-'') then ([c], cs) else ([], s))
      in case parse_int s1 of
           None \<Rightarrow> None
         | Some (i, s2) \<Rightarrow>
             (case parse_frac s2 of
                None \<Rightarrow> None
              | Some (f, s3) \<Rightarrow>
                  (case parse_exp s3 of
                     None \<Rightarrow> None
                   | Some (e, s4) \<Rightarrow> Some (sign @ i @ f @ e, s4))))"

text \<open>
  The recursive descent over values. The first argument bounds the number of nested calls.
  An opening bracket or brace takes two calls and has its closing one in the text, a comma
  takes one: for a text that is JSON, its length is enough.
\<close>

fun parse_value :: "nat \<Rightarrow> jstring \<Rightarrow> (json \<times> jstring) option"
  and parse_members :: "nat \<Rightarrow> jstring \<Rightarrow> ((jstring \<times> json) list \<times> jstring) option"
  and parse_elements :: "nat \<Rightarrow> jstring \<Rightarrow> (json list \<times> jstring) option"
where
  "parse_value 0 s = None"
| "parse_value (Suc n) s =
     (case skip_ws s of
        [] \<Rightarrow> None
      | c # cs \<Rightarrow>
          if c = of_char (CHR ''{'') then
            (case skip_ws cs of
               [] \<Rightarrow> None
             | d # ds \<Rightarrow>
                 if d = of_char (CHR ''}'') then Some (JObject [], skip_ws ds)
                 else (case parse_members n (d # ds) of
                         Some (kvs, r) \<Rightarrow> Some (JObject kvs, skip_ws r)
                       | None \<Rightarrow> None))
          else if c = of_char (CHR ''['') then
            (case skip_ws cs of
               [] \<Rightarrow> None
             | d # ds \<Rightarrow>
                 if d = of_char (CHR '']'') then Some (JArray [], skip_ws ds)
                 else (case parse_elements n (d # ds) of
                         Some (vs, r) \<Rightarrow> Some (JArray vs, skip_ws r)
                       | None \<Rightarrow> None))
          else if c = 0x22 then
            (case parse_chars cs of Some (t, r) \<Rightarrow> Some (JString t, skip_ws r) | None \<Rightarrow> None)
          else if prefix (js ''true'') (c # cs) then Some (JBool True, skip_ws (drop 4 (c # cs)))
          else if prefix (js ''false'') (c # cs) then Some (JBool False, skip_ws (drop 5 (c # cs)))
          else if prefix (js ''null'') (c # cs) then Some (JNull, skip_ws (drop 4 (c # cs)))
          else (case parse_number (c # cs) of
                  Some (l, r) \<Rightarrow> Some (JNumber l, skip_ws r)
                | None \<Rightarrow> None))"
| "parse_members 0 s = None"
| "parse_members (Suc n) s =
     (case skip_ws s of
        [] \<Rightarrow> None
      | c # cs \<Rightarrow>
          if c \<noteq> 0x22 then None
          else (case parse_chars cs of
                  None \<Rightarrow> None
                | Some (k, r) \<Rightarrow>
                    (case skip_ws r of
                       [] \<Rightarrow> None
                     | d # ds \<Rightarrow>
                         if d \<noteq> of_char (CHR '':'') then None
                         else (case parse_value n ds of
                                 None \<Rightarrow> None
                               | Some (v, r') \<Rightarrow>
                                   (case r' of
                                      [] \<Rightarrow> None
                                    | e # es \<Rightarrow>
                                        if e = of_char (CHR ''}'') then Some ([(k, v)], es)
                                        else if e = of_char (CHR '','') then
                                          (case parse_members n es of
                                             Some (kvs, r'') \<Rightarrow> Some ((k, v) # kvs, r'')
                                           | None \<Rightarrow> None)
                                        else None)))))"
| "parse_elements 0 s = None"
| "parse_elements (Suc n) s =
     (case parse_value n s of
        None \<Rightarrow> None
      | Some (v, r) \<Rightarrow>
          (case r of
             [] \<Rightarrow> None
           | e # es \<Rightarrow>
               if e = of_char (CHR '']'') then Some ([v], es)
               else if e = of_char (CHR '','') then
                 (case parse_elements n es of
                    Some (vs, r') \<Rightarrow> Some (v # vs, r')
                  | None \<Rightarrow> None)
               else None))"

definition json_parse :: "jstring \<Rightarrow> json option" where
  "json_parse s =
     (case parse_value (Suc (length s)) s of
        Some (v, []) \<Rightarrow> Some v
      | _ \<Rightarrow> None)"

section \<open>Regular expressions\<close>

text \<open>
  The three regular expressions of \<open>extractSwitchVoiceSignal\<close> are sequences of literals,
  optional literals, starred character classes and one capture group. \<open>rx_match\<close> is the
  backtracking matcher of the runtime on such sequences: a star and an optional literal are
  greedy, and give characters back when the rest of the pattern fails. It returns the position
  after the match and the bounds of the capture group.
\<close>

datatype rx =
    Lit jstring
  | Opt jstring
  | Star "unit16 \<Rightarrow> bool"
  | CapOpen
  | CapClose

fun rx_match :: "rx list \<Rightarrow> jstring \<Rightarrow> nat \<Rightarrow> nat \<times> nat \<Rightarrow> (nat \<times> nat \<times> nat) option" where
  "rx_match [] s pos cap = Some (pos, cap)"
| "rx_match (Lit l # rs) s pos cap =
     (if prefix l s then rx_match rs (drop (length l) s) (pos + length l) cap else None)"
| "rx_match (Opt l # rs) s pos cap =
     (case (if prefix l s then rx_match rs (drop (length l) s) (pos + length l) cap else None) of
        Some m \<Rightarrow> Some m
      | None \<Rightarrow> rx_match rs s pos cap)"
| "rx_match (Star p # rs) [] pos cap = rx_match rs [] pos cap"
| "rx_match (Star p # rs) (c # cs) pos cap =
     (case (if p c then rx_match (Star p # rs) cs (Suc pos) cap else None) of
        Some m \<Rightarrow> Some m
      | None \<Rightarrow> rx_match rs (c # cs) pos cap)"
| "rx_match (CapOpen # rs) s pos cap = rx_match rs s pos (pos, snd cap)"
| "rx_match (CapClose # rs) s pos cap = rx_match rs s pos (fst cap, pos)"

text \<open>A pattern anchored with \<open>^\<close> is tried at position 0 only.\<close>

definition rx_match_start :: "rx list \<Rightarrow> jstring \<Rightarrow> (nat \<times> nat \<times> nat) option" where
  "rx_match_start rs s = rx_match rs s 0 (0, 0)"

text \<open>A pattern without anchor is tried at every position from the left; the first match wins.
  The result is the start and the end of the match.\<close>

fun rx_search :: "rx list \<Rightarrow> jstring \<Rightarrow> nat \<Rightarrow> (nat \<times> nat) option" where
  "rx_search rs [] pos =
     (case rx_match rs [] pos (0, 0) of Some (e, _) \<Rightarrow> Some (pos, e) | None \<Rightarrow> None)"
| "rx_search rs (c # cs) pos =
     (case rx_match rs (c # cs) pos (0, 0) of
        Some (e, _) \<Rightarrow> Some (pos, e)
      | None \<Rightarrow> rx_search rs cs (Suc pos))"

definition substring :: "nat \<Rightarrow> nat \<Rightarrow> jstring \<Rightarrow> jstring" where
  "substring a b s = take (b - a) (drop a s)"

definition notNewline :: "unit16 \<Rightarrow> bool" where
  "notNewline c \<longleftrightarrow> c \<noteq> 0x0A"

definition FENCE :: jstring where
  "FENCE = [0x60, 0x60, 0x60]"

text \<open>\<^verbatim>\<open>/^```(?:json)?\s*\n(\{[^\n]*\})\s*\n```\s*\n?/\<close>\<close>

definition RX_FENCED :: "rx list" where
  "RX_FENCED =
     [Lit FENCE, Opt (js ''json''), Star isSpace, Lit [0x0A],
      CapOpen, Lit (js ''{''), Star notNewline, Lit (js ''}''), CapClose,
      Star isSpace, Lit [0x0A], Lit FENCE,
      Star isSpace, Opt [0x0A]]"

text \<open>\<^verbatim>\<open>/^(\{[^\n]*\})\s*\n?/\<close>\<close>

definition RX_FIRST_LINE :: "rx list" where
  "RX_FIRST_LINE =
     [CapOpen, Lit (js ''{''), Star notNewline, Lit (js ''}''), CapClose, Star isSpace, Opt [0x0A]]"

text \<open>\<^verbatim>\<open>/\{[^\n]*\}/\<close>\<close>

definition RX_LINE :: "rx list" where
  "RX_LINE = [Lit (js ''{''), Star notNewline, Lit (js ''}'')]"

section \<open>The switch signal of a reply\<close>

record signal =
  switchVoice :: jstring
  replyText :: jstring

text \<open>
  The body of each \<open>try\<close> block: \<open>JSON.parse\<close> the fragment and test
  \<open>typeof parsed.switchVoice === 'string' && parsed.switchVoice\<close>. A thrown error
  (the \<open>SyntaxError\<close> of the parser, the \<open>TypeError\<close> of reading a property of \<open>null\<close>) is
  caught and leads on like a failed test. Of a repeated key the parser keeps the last value.
\<close>

definition parsedSwitchVoice :: "(jstring \<Rightarrow> json option) \<Rightarrow> jstring \<Rightarrow> jstring option" where
  "parsedSwitchVoice parse fragment =
     (case parse fragment of
        Some (JObject kvs) \<Rightarrow>
          (case map_of (rev kvs) (js ''switchVoice'') of
             Some (JString name) \<Rightarrow> if name \<noteq> [] then Some name else None
           | _ \<Rightarrow> None)
      | _ \<Rightarrow> None)"

text \<open>Priority 1 and priority 2: a pattern at the start of the text; the reply is the text
  after the whole match, trimmed.\<close>

definition atStart :: "rx list \<Rightarrow> (jstring \<Rightarrow> json option) \<Rightarrow> jstring \<Rightarrow> signal option" where
  "atStart rs parse text =
     (case rx_match_start rs text of
        None \<Rightarrow> None
      | Some (e, a, b) \<Rightarrow>
          (case parsedSwitchVoice parse (substring a b text) of
             None \<Rightarrow> None
           | Some name \<Rightarrow> Some \<lparr>switchVoice = name, replyText = trim (drop e text)\<rparr>))"

text \<open>Priority 3: the loop over the lines. \<open>lines.splice(i, 1)\<close> removes line \<open>i\<close>.\<close>

function scanLines :: "(jstring \<Rightarrow> json option) \<Rightarrow> jstring list \<Rightarrow> nat \<Rightarrow> signal option" where
  "scanLines parse lines i =
     (if i < length lines then
        (case rx_search RX_LINE (lines ! i) 0 of
           None \<Rightarrow> scanLines parse lines (Suc i)
         | Some (a, b) \<Rightarrow>
             (case parsedSwitchVoice parse (substring a b (lines ! i)) of
                None \<Rightarrow> scanLines parse lines (Suc i)
              | Some name \<Rightarrow>
                  Some \<lparr>switchVoice = name,
                        replyText = trim (join [0x0A] (take i lines @ drop (Suc i) lines))\<rparr>))
      else None)"
  by pat_completeness auto
termination
  by (relation "measure (\<lambda>(parse, lines, i). length lines - i)") auto

definition extractSwitchVoiceSignal :: "(jstring \<Rightarrow> json option) \<Rightarrow> jstring \<Rightarrow> signal option" where
  "extractSwitchVoiceSignal parse text =
     (if text = [] then None
      else case atStart RX_FENCED parse text of
             Some r \<Rightarrow> Some r
           | None \<Rightarrow>
               (case atStart RX_FIRST_LINE parse text of
                  Some r \<Rightarrow> Some r
                | None \<Rightarrow> scanLines parse (split 0x0A text) 0))"

section \<open>Records of the stores\<close>

text \<open>The bytes of an audio file.\<close>

type_synonym buffer = "8 word list"

record voice =
  vid :: jstring
  vname :: jstring
  elevenLabsVoiceId :: jstring
  systemPrompt :: jstring
  vcreatedAt :: jstring

text \<open>
  An entry of a conversation is a JavaScript object read back from JSON. A user entry has
  \<open>id\<close>, \<open>turnId\<close>, \<open>role\<close>, \<open>content\<close>, \<open>timestamp\<close>; an assistant entry has
  \<open>audioUrl\<close> too; a voice switch event has \<open>type\<close>, \<open>subtype\<close> and the four voice fields.
  A field the object does not have, or has as \<open>null\<close>, is \<^term>\<open>None\<close>.
\<close>

record message =
  mid :: jstring
  turnId :: "jstring option"
  role :: jstring
  mtype :: "jstring option"
  subtype :: "jstring option"
  content :: "jstring option"
  audioUrl :: "jstring option"
  fromVoiceId :: "jstring option"
  fromVoiceName :: "jstring option"
  toVoiceId :: "jstring option"
  toVoiceName :: "jstring option"
  timestamp :: jstring

record conversation =
  cid :: jstring
  voiceId :: jstring
  title :: jstring
  createdAt :: jstring
  updatedAt :: jstring
  messages :: "message list"

datatype error = Error (status: "nat option") (errmsg: jstring)

datatype stored = Blob buffer | Sidecar

datatype call =
    Transcribe buffer jstring
  | Chat "(jstring \<times> jstring option) list"
  | Synthesize jstring jstring

datatype log =
    LogTranscribing jstring
  | LogLLMReceived
  | LogTTSGenerated
  | LogTurnSaved jstring
  | ErrorTurnPipelineFailed jstring
  | WarnCleanupFailed jstring
  | LogVoiceRecovery jstring jstring

text \<open>
  The state the routes work on: the conversation files by id, \<open>voices.json\<close>, the files of
  the storage service by session and path, the calls made to the three providers, and the
  console lines of the route.
\<close>

record world =
  conversations :: "jstring \<rightharpoonup> conversation"
  voices :: "voice list"
  files :: "jstring \<times> jstring \<rightharpoonup> stored"
  calls :: "call list"
  console :: "log list"

text \<open>
  What a request meets and the route does not decide: the runtime's \<open>JSON.parse\<close> and
  \<open>String.prototype.toLowerCase\<close>, the three providers of \<open>services/elevenlabs\<close> and \<open>services/llmFactory\<close>, the failures of the
  file system under each storage operation (each operation runs at most once in a request),
  and the values of the calls of \<open>uuidv4()\<close> and \<open>new Date().toISOString()\<close>, by their
  order in the request. A file operation of two steps can fail at either.
\<close>

datatype fs_failure = AtFirst error | AtSecond error


record env =
  parse :: "jstring \<Rightarrow> json option"
  toLowerCase :: "jstring \<Rightarrow> jstring"
  transcribeSpeech :: "buffer \<Rightarrow> jstring \<Rightarrow> error + jstring"
  chat :: "(jstring \<times> jstring option) list \<Rightarrow> error + jstring option"
  generateSpeech :: "jstring \<Rightarrow> jstring \<Rightarrow> error + buffer"
  getVoices_error :: "error option"
  getConversation_error :: "error option"
  saveConversation_error :: "error option"
  uploadFile_error :: "fs_failure option"
  deleteFile_error :: "fs_failure option"
  uuidv4 :: "nat \<Rightarrow> jstring"
  now :: "nat \<Rightarrow> jstring"

record turn_request =
  params_id :: jstring
  body_turnId :: "jstring option"
  body_transcribedText :: "jstring option"
  req_file :: "(buffer \<times> jstring) option"

datatype body =
    ErrorBody jstring
  | TurnBody (userMessage: "message option") (aiMessage: "message option")
      (voiceSwitchEvent: "message option")
  | ConversationBody conversation

datatype response = Response (code: nat) (body: body)

text \<open>\<open>res.json(x)\<close> answers with status 200; \<open>error.status || 500\<close>.\<close>

definition statusOr500 :: "error \<Rightarrow> nat" where
  "statusOr500 e = (case status e of None \<Rightarrow> 500 | Some n \<Rightarrow> if n = 0 then 500 else n)"

section \<open>\<open>services/dataStore\<close> and \<open>services/storage\<close>\<close>

definition getVoices :: "env \<Rightarrow> world \<Rightarrow> error + voice list" where
  "getVoices env w = (case getVoices_error env of Some e \<Rightarrow> Inl e | None \<Rightarrow> Inr (voices w))"

definition getConversation :: "env \<Rightarrow> world \<Rightarrow> jstring \<Rightarrow> error + conversation" where
  "getConversation env w i =
     (case conversations w i of
        None \<Rightarrow> Inl (Error (Some 404) (js ''Conversation not found: '' @ i))
      | Some c \<Rightarrow> (case getConversation_error env of Some e \<Rightarrow> Inl e | None \<Rightarrow> Inr c))"

text \<open>The record is written to a temporary file and renamed: a failure leaves the stored
  record as it was.\<close>

definition saveConversation :: "env \<Rightarrow> conversation \<Rightarrow> world \<Rightarrow> (error + unit) \<times> world" where
  "saveConversation env conv w =
     (case saveConversation_error env of
        Some e \<Rightarrow> (Inl e, w)
      | None \<Rightarrow> (Inr (), w\<lparr>conversations := (conversations w)(cid conv \<mapsto> conv)\<rparr>))"

definition metaPath :: "jstring \<Rightarrow> jstring" where
  "metaPath filePath = filePath @ (js ''.meta.json'')"

text \<open>\<open>uploadFile\<close> writes the file, then its metadata sidecar.\<close>

definition uploadFile :: "env \<Rightarrow> jstring \<Rightarrow> jstring \<Rightarrow> buffer \<Rightarrow> world \<Rightarrow> (error + jstring) \<times> world" where
  "uploadFile env sessionId filePath buf w =
     (case uploadFile_error env of
        Some (AtFirst e) \<Rightarrow> (Inl e, w)
      | Some (AtSecond e) \<Rightarrow>
          (Inl e, w\<lparr>files := (files w)((sessionId, filePath) \<mapsto> Blob buf)\<rparr>)
      | None \<Rightarrow>
          (Inr filePath,
           w\<lparr>files := (files w)((sessionId, filePath) \<mapsto> Blob buf,
                                   (sessionId, metaPath filePath) \<mapsto> Sidecar)\<rparr>))"

text \<open>\<open>deleteFile\<close> unlinks the file, then its sidecar; a file that is not there is
  passed over.\<close>

definition deleteFile :: "env \<Rightarrow> jstring \<Rightarrow> jstring \<Rightarrow> world \<Rightarrow> (error + unit) \<times> world" where
  "deleteFile env sessionId filePath w =
     (case deleteFile_error env of
        Some (AtFirst e) \<Rightarrow> (Inl e, w)
      | Some (AtSecond e) \<Rightarrow>
          (Inl e, w\<lparr>files := (files w)((sessionId, filePath) := None)\<rparr>)
      | None \<Rightarrow>
          (Inr (),
           w\<lparr>files := (files w)((sessionId, filePath) := None,
                                   (sessionId, metaPath filePath) := None)\<rparr>))"

section \<open>\<open>routes/conversations\<close>: the turn pipeline\<close>

definition VOICE_SWITCH_META :: jstring where
  \<open>VOICE_SWITCH_META =
     (js ''If the user asks to switch to a different voice or persona, you MUST output the following JSON on its own line BEFORE your reply '')
     @ [0x2014]
     @ js '' no preamble, no explanation before it:\<newline>{"switchVoice":"<exact voice name>"}\<newline>Then continue your reply as the new persona on the next line.\<newline>Example:\<newline>{"switchVoice":"Didi"}\<newline>Hello! I am Didi, great to meet you.\<newline>If no voice switch is requested, respond normally with no JSON prefix whatsoever.''\<close>

text \<open>The horizontal ellipsis U+2026 that ends a derived title.\<close>

definition ELLIPSIS :: jstring where
  "ELLIPSIS = [0x2026]"

text \<open>\<open>req.body.transcribedText && req.body.transcribedText.trim()\<close>, as a truth value.\<close>

definition hasText :: "turn_request \<Rightarrow> bool" where
  "hasText req = (case body_transcribedText req of None \<Rightarrow> False | Some t \<Rightarrow> t \<noteq> [] \<and> trim t \<noteq> [])"

text \<open>The partial case-insensitive match of a voice name against the registry, with the
  \<open>toLowerCase\<close> of the runtime.\<close>

definition voiceMatches :: "env \<Rightarrow> jstring \<Rightarrow> voice list \<Rightarrow> voice list" where
  "voiceMatches env normalizedSwitchVoice vs =
     filter (\<lambda>v. includes_js (toLowerCase env (vname v)) (toLowerCase env normalizedSwitchVoice)
               \<or> includes_js (toLowerCase env normalizedSwitchVoice) (toLowerCase env (vname v)))
       vs"

record branch =
  reply :: jstring
  ttsElevenLabsVoiceId :: jstring
  pendingSwitch :: "voice option"

text \<open>\<open>signalResult.replyText || 'No response'\<close>\<close>

definition orNoResponse :: "jstring \<Rightarrow> jstring" where
  "orNoResponse s = (if s = [] then js ''No response'' else s)"

text \<open>The branch variables \<open>replyText\<close>, \<open>ttsElevenLabsVoiceId\<close>, \<open>pendingSwitch\<close>.\<close>

definition resolveSignal ::
  "env \<Rightarrow> voice list \<Rightarrow> voice \<Rightarrow> conversation \<Rightarrow> jstring \<Rightarrow> signal option \<Rightarrow> branch" where
  \<open>resolveSignal env vs v conv trimmedAiText signalResult =
     (case signalResult of
        None \<Rightarrow>
          \<lparr>reply = trimmedAiText, ttsElevenLabsVoiceId = elevenLabsVoiceId v, pendingSwitch = None\<rparr>
      | Some sig \<Rightarrow>
          (let normalizedSwitchVoice = trim (switchVoice sig);
               matches = voiceMatches env normalizedSwitchVoice vs
           in case matches of
                [] \<Rightarrow>
                  \<lparr>reply = js ''I couldn't find a voice named "'' @ normalizedSwitchVoice @ js ''".'',
                   ttsElevenLabsVoiceId = elevenLabsVoiceId v, pendingSwitch = None\<rparr>
              | [matchedVoice] \<Rightarrow>
                  if vid matchedVoice = voiceId conv then
                    \<lparr>reply = js ''I'm already speaking as '' @ vname matchedVoice @ js ''.'',
                     ttsElevenLabsVoiceId = elevenLabsVoiceId v, pendingSwitch = None\<rparr>
                  else
                    \<lparr>reply = orNoResponse (replyText sig),
                     ttsElevenLabsVoiceId = elevenLabsVoiceId matchedVoice,
                     pendingSwitch = Some matchedVoice\<rparr>
              | _ \<Rightarrow>
                  \<lparr>reply = js ''Did you mean '' @ join (js '' or '') (map vname matches) @ js ''?'',
                   ttsElevenLabsVoiceId = elevenLabsVoiceId v, pendingSwitch = None\<rparr>))\<close>

text \<open>The context handed to the reasoning provider: the persona's prompt with the switch
  instruction, the user and assistant entries so far, the new utterance.\<close>

definition llmMessages :: "voice \<Rightarrow> conversation \<Rightarrow> jstring \<Rightarrow> (jstring \<times> jstring option) list" where
  "llmMessages v conv userText =
     [(js ''system'', Some (systemPrompt v @ [0x0A, 0x0A] @ VOICE_SWITCH_META))]
     @ map (\<lambda>m. (role m, content m))
         (filter (\<lambda>m. role m = js ''user'' \<or> role m = js ''assistant'') (messages conv))
     @ [(js ''user'', Some userText)]"

text \<open>\<open>aiText?.trim() || 'No response'\<close>\<close>

definition trimmedAiText :: "jstring option \<Rightarrow> jstring" where
  "trimmedAiText aiText = (case aiText of None \<Rightarrow> (js ''No response'') | Some t \<Rightarrow> orNoResponse (trim t))"

text \<open>\<open>userText.split(' ').slice(0, 6).join(' ') + '\<dots>'\<close>\<close>

definition deriveTitle :: "jstring \<Rightarrow> jstring" where
  "deriveTitle userText = join (js '' '') (take 6 (split 0x20 userText)) @ ELLIPSIS"

definition mp3 :: "jstring \<Rightarrow> jstring" where
  "mp3 aiMessageId = aiMessageId @ (js ''.mp3'')"

definition newUserMessage :: "env \<Rightarrow> jstring \<Rightarrow> jstring \<Rightarrow> message" where
  "newUserMessage env tid userText =
     \<lparr>mid = uuidv4 env 1, turnId = Some tid, role = js ''user'', mtype = None, subtype = None,
      content = Some userText, audioUrl = None, fromVoiceId = None, fromVoiceName = None,
      toVoiceId = None, toVoiceName = None, timestamp = now env 0\<rparr>"

definition newAiMessage :: "env \<Rightarrow> turn_request \<Rightarrow> jstring \<Rightarrow> jstring \<Rightarrow> message" where
  "newAiMessage env req tid replyText' =
     \<lparr>mid = uuidv4 env 0, turnId = Some tid, role = js ''assistant'', mtype = None, subtype = None,
      content = Some replyText',
      audioUrl = Some (js ''/api/audio/'' @ params_id req @ js ''/'' @ mp3 (uuidv4 env 0)),
      fromVoiceId = None, fromVoiceName = None, toVoiceId = None, toVoiceName = None,
      timestamp = now env 1\<rparr>"

definition newVoiceSwitchEvent :: "env \<Rightarrow> jstring \<Rightarrow> conversation \<Rightarrow> voice \<Rightarrow> voice \<Rightarrow> message" where
  "newVoiceSwitchEvent env tid conv v pending =
     \<lparr>mid = uuidv4 env 2, turnId = Some tid, role = js ''system'', mtype = Some (js ''voiceSwitch''),
      subtype = Some (js ''switch''), content = None, audioUrl = None,
      fromVoiceId = Some (voiceId conv), fromVoiceName = Some (vname v),
      toVoiceId = Some (vid pending), toVoiceName = Some (vname pending),
      timestamp = now env 2\<rparr>"

text \<open>The conversation after the in-memory mutation: the new entries pushed (with the
  switch event and the new active voice when a switch is pending), the update time, and the
  title of a conversation that still has the placeholder.\<close>

definition appendTurn ::
  "env \<Rightarrow> turn_request \<Rightarrow> jstring \<Rightarrow> conversation \<Rightarrow> voice \<Rightarrow> jstring \<Rightarrow> branch \<Rightarrow> conversation" where
  "appendTurn env req tid conv v userText b =
     (let userMessage' = newUserMessage env tid userText;
          aiMessage' = newAiMessage env req tid (reply b);
          conv1 = (case pendingSwitch b of
                     Some pending \<Rightarrow>
                       conv\<lparr>voiceId := vid pending,
                            messages := messages conv
                              @ [userMessage', aiMessage', newVoiceSwitchEvent env tid conv v pending]\<rparr>
                   | None \<Rightarrow> conv\<lparr>messages := messages conv @ [userMessage', aiMessage']\<rparr>);
          conv2 = conv1\<lparr>updatedAt := now env (if pendingSwitch b = None then 2 else 3)\<rparr>
      in if title conv2 = js ''New Conversation''
         then conv2\<lparr>title := deriveTitle userText\<rparr> else conv2)"

text \<open>From the message objects to the response: the part of the \<open>try\<close> block that runs
  once the audio file is stored. The result is the thrown error or the response.\<close>

definition persistTurn ::
  "env \<Rightarrow> turn_request \<Rightarrow> jstring \<Rightarrow> conversation \<Rightarrow> voice \<Rightarrow> jstring \<Rightarrow> branch \<Rightarrow> world
    \<Rightarrow> (error + response) \<times> world" where
  "persistTurn env req tid conv v userText b w =
     (case saveConversation env (appendTurn env req tid conv v userText b) w of
        (Inl e, w') \<Rightarrow> (Inl e, w')
      | (Inr _, w') \<Rightarrow>
          (Inr (Response 200
                  (TurnBody (Some (newUserMessage env tid userText))
                     (Some (newAiMessage env req tid (reply b)))
                     (map_option (newVoiceSwitchEvent env tid conv v) (pendingSwitch b)))),
           w'\<lparr>console := console w' @ [LogTurnSaved (params_id req)]\<rparr>))"

text \<open>The user's text: the transcribed text of the request, trimmed, or a call of the
  transcription provider on the uploaded file. A request that passed the validation has one
  of the two; without a file \<open>req.file.buffer\<close> throws a \<open>TypeError\<close>.\<close>

definition transcribeFile :: "env \<Rightarrow> turn_request \<Rightarrow> world \<Rightarrow> (error + jstring) \<times> world" where
  "transcribeFile env req w =
     (case req_file req of
        None \<Rightarrow> (Inl (Error None (js ''Cannot read properties of undefined (reading 'buffer')'')), w)
      | Some (buf, mimetype) \<Rightarrow>
          (transcribeSpeech env buf mimetype, w\<lparr>calls := calls w @ [Transcribe buf mimetype]\<rparr>))"

definition obtainUserText :: "env \<Rightarrow> turn_request \<Rightarrow> world \<Rightarrow> (error + jstring) \<times> world" where
  "obtainUserText env req w =
     (case body_transcribedText req of
        None \<Rightarrow> transcribeFile env req w
      | Some t \<Rightarrow> if t \<noteq> [] \<and> trim t \<noteq> [] then (Inr (trim t), w) else transcribeFile env req w)"

text \<open>
  The \<open>try\<close> block of the pipeline. The left result is a thrown error with the value of
  \<open>audioSaved\<close> at the throw; the right one is the response sent. \<open>aiMessageId\<close> is the
  first \<open>uuidv4()\<close> of the request.
\<close>

definition tryPipeline ::
  "env \<Rightarrow> turn_request \<Rightarrow> jstring \<Rightarrow> conversation \<Rightarrow> world
    \<Rightarrow> (error \<times> bool + response) \<times> world" where
  "tryPipeline env req tid conv w =
     (case getVoices env w of
        Inl e \<Rightarrow> (Inl (e, False), w)
      | Inr vs \<Rightarrow>
          (case find (\<lambda>v. vid v = voiceId conv) vs of
             None \<Rightarrow> (Inr (Response 404 (ErrorBody (js ''Voice not found''))), w)
           | Some v \<Rightarrow>
               (case obtainUserText env req (w\<lparr>console := console w @ [LogTranscribing tid]\<rparr>) of
                  (Inl e, w1) \<Rightarrow> (Inl (e, False), w1)
                | (Inr userText, w1) \<Rightarrow>
                    (let msgs = llmMessages v conv userText;
                         w2 = w1\<lparr>console := console w1 @ [LogLLMReceived],
                                 calls := calls w1 @ [Chat msgs]\<rparr>
                     in case chat env msgs of
                          Inl e \<Rightarrow> (Inl (e, False), w2)
                        | Inr aiText \<Rightarrow>
                            (let b = resolveSignal env vs v conv (trimmedAiText aiText)
                                       (extractSwitchVoiceSignal (parse env) (trimmedAiText aiText));
                                 w3 = w2\<lparr>console := console w2 @ [LogTTSGenerated],
                                         calls := calls w2
                                           @ [Synthesize (ttsElevenLabsVoiceId b) (reply b)]\<rparr>
                             in case generateSpeech env (ttsElevenLabsVoiceId b) (reply b) of
                                  Inl e \<Rightarrow> (Inl (e, False), w3)
                                | Inr audioBuffer \<Rightarrow>
                                    (case uploadFile env (params_id req) (mp3 (uuidv4 env 0))
                                            audioBuffer w3 of
                                       (Inl e, w4) \<Rightarrow> (Inl (e, False), w4)
                                     | (Inr _, w4) \<Rightarrow>
                                         (case persistTurn env req tid conv v userText b w4 of
                                            (Inl e, w5) \<Rightarrow> (Inl (e, True), w5)
                                          | (Inr r, w5) \<Rightarrow> (Inr r, w5))))))))"

text \<open>The \<open>catch\<close> block: the error is logged, the audio file is removed when it was saved
  (a failure of the removal is caught and logged), and the error is answered.\<close>

definition catchPipeline :: "env \<Rightarrow> turn_request \<Rightarrow> error \<Rightarrow> bool \<Rightarrow> world \<Rightarrow> response \<times> world" where
  "catchPipeline env req e audioSaved w =
     (let w1 = w\<lparr>console := console w @ [ErrorTurnPipelineFailed (errmsg e)]\<rparr>;
          w2 = (if audioSaved \<and> uuidv4 env 0 \<noteq> [] then
                  (case deleteFile env (params_id req) (mp3 (uuidv4 env 0)) w1 of
                     (Inl cleanupError, w') \<Rightarrow>
                       w'\<lparr>console := console w' @ [WarnCleanupFailed (errmsg cleanupError)]\<rparr>
                   | (Inr _, w') \<Rightarrow> w')
                else w1)
      in (Response (statusOr500 e) (ErrorBody (errmsg e)), w2))"

text \<open>The idempotency check on the loaded conversation.\<close>

definition existingFor :: "jstring \<Rightarrow> conversation \<Rightarrow> message list" where
  "existingFor tid conv = filter (\<lambda>m. turnId m = Some tid) (messages conv)"

definition replay :: "jstring \<Rightarrow> message list \<Rightarrow> response" where
  "replay tid existing =
     Response 200
       (TurnBody (find (\<lambda>m. role m = js ''user'') existing)
          (find (\<lambda>m. role m = js ''assistant'') existing)
          (find (\<lambda>m. role m = js ''system'' \<and> mtype m = Some (js ''voiceSwitch'') \<and> turnId m = Some tid)
             existing))"

text \<open>
  The function handed to \<open>enqueueTurn\<close>. The left result is an error thrown out of it,
  which rejects the promise of the task.
\<close>

definition turnTask :: "env \<Rightarrow> turn_request \<Rightarrow> world \<Rightarrow> (error + response) \<times> world" where
  "turnTask env req w =
     (case body_turnId req of
        None \<Rightarrow> (Inr (Response 400 (ErrorBody (js ''turnId is required''))), w)
      | Some tid \<Rightarrow>
          if tid = [] then (Inr (Response 400 (ErrorBody (js ''turnId is required''))), w)
          else if req_file req = None \<and> \<not> hasText req then
            (Inr (Response 400 (ErrorBody (js ''audio file or transcribedText is required''))), w)
          else
            (case getConversation env w (params_id req) of
               Inl e \<Rightarrow> (Inl e, w)
             | Inr conv \<Rightarrow>
                 if existingFor tid conv \<noteq> [] then (Inr (replay tid (existingFor tid conv)), w)
                 else
                   (case tryPipeline env req tid conv w of
                      (Inr r, w') \<Rightarrow> (Inr r, w')
                    | (Inl (e, audioSaved), w') \<Rightarrow>
                        (case catchPipeline env req e audioSaved w' of
                           (r, w'') \<Rightarrow> (Inr r, w'')))))"

text \<open>\<open>POST /:id/turn\<close>, after the upload middleware: the task, and the outer \<open>catch\<close> for
  an error the task threw.\<close>

definition postTurn :: "env \<Rightarrow> turn_request \<Rightarrow> world \<Rightarrow> response \<times> world" where
  "postTurn env req w =
     (case turnTask env req w of
        (Inr r, w') \<Rightarrow> (r, w')
      | (Inl e, w') \<Rightarrow>
          (Response (statusOr500 e)
             (ErrorBody (if errmsg e = [] then js ''Failed to process turn'' else errmsg e)), w'))"

section \<open>\<open>routes/conversations\<close>: reading a conversation\<close>

definition newRecoveryEvent :: "env \<Rightarrow> conversation \<Rightarrow> voice \<Rightarrow> message" where
  "newRecoveryEvent env conv v0 =
     \<lparr>mid = uuidv4 env 0, turnId = None, role = js ''system'', mtype = Some (js ''voiceSwitch''),
      subtype = Some (js ''recovery''), content = None, audioUrl = None,
      fromVoiceId = Some (voiceId conv), fromVoiceName = Some (js ''Unknown''),
      toVoiceId = Some (vid v0), toVoiceName = Some (vname v0),
      timestamp = now env 0\<rparr>"

definition failedToGet :: "error \<Rightarrow> response" where
  "failedToGet e =
     Response (statusOr500 e)
       (ErrorBody (if errmsg e = [] then js ''Failed to get conversation'' else errmsg e))"

text \<open>\<open>GET /:id\<close>\<close>

definition getConversationRoute :: "env \<Rightarrow> jstring \<Rightarrow> world \<Rightarrow> response \<times> world" where
  "getConversationRoute env i w =
     (case getConversation env w i of
        Inl e \<Rightarrow> (failedToGet e, w)
      | Inr conv \<Rightarrow>
          (case getVoices env w of
             Inl e \<Rightarrow> (failedToGet e, w)
           | Inr vs \<Rightarrow>
               if find (\<lambda>v. vid v = voiceId conv) vs \<noteq> None then (Response 200 (ConversationBody conv), w)
               else
                 (case vs of
                    [] \<Rightarrow> (Response 200 (ConversationBody conv), w)
                  | v0 # _ \<Rightarrow>
                      (let conv' = conv\<lparr>voiceId := vid v0,
                                         messages := messages conv @ [newRecoveryEvent env conv v0],
                                         updatedAt := now env 1\<rparr>
                       in case saveConversation env conv' w of
                            (Inl e, w') \<Rightarrow> (failedToGet e, w')
                          | (Inr _, w') \<Rightarrow>
                              (Response 200 (ConversationBody conv'),
                               w'\<lparr>console := console w' @ [LogVoiceRecovery (vname v0) i]\<rparr>)))))"

section \<open>\<open>routes/conversations\<close>: the queue of turns\<close>

text \<open>
  \<open>enqueueTurn(conversationId, fn)\<close> reads the promise \<open>current\<close> that the table
  \<open>turnQueues\<close> holds for the conversation (or takes a resolved one), builds
  \<open>next = current.catch(() => {}).then(() => fn())\<close>, stores \<open>next\<close> in the table and returns
  it to the caller. A promise \<open>next\<close> is a task here, named by its place in the order of
  creation: it remembers its conversation id and the promise it waits for (\<^term>\<open>None\<close> for
  the resolved one), and it is waiting, running (its \<open>fn\<close> was called and has not returned) or
  settled with what \<open>fn\<close> gave, an error thrown or a response.
\<close>

datatype pstate = Waiting | Running | Settled "error + response"

record task =
  key :: jstring
  awaits :: "nat option"
  state :: pstate

record queues =
  turnQueues :: "jstring \<rightharpoonup> nat"
  tasks :: "task list"

definition emptyQueues :: queues where
  "emptyQueues = \<lparr>turnQueues = Map.empty, tasks = []\<rparr>"

definition enqueueTurn :: "jstring \<Rightarrow> queues \<Rightarrow> nat \<times> queues" where
  "enqueueTurn conversationId q =
     (let current = turnQueues q conversationId;
          next = length (tasks q)
      in (next,
          q\<lparr>tasks := tasks q @ [\<lparr>key = conversationId, awaits = current, state = Waiting\<rparr>],
            turnQueues := (turnQueues q)(conversationId \<mapsto> next)\<rparr>))"

definition isSettled :: "pstate \<Rightarrow> bool" where
  "isSettled s = (case s of Settled r \<Rightarrow> True | _ \<Rightarrow> False)"

text \<open>
  What happens in the process, one event at a time: a request reaches \<open>enqueueTurn\<close>; the
  runtime calls the \<open>fn\<close> of a task, which it does once and only when the promise the task
  waits for is settled, fulfilled or rejected alike (the \<open>catch\<close> swallows a rejection); the
  \<open>fn\<close> of a running task returns or throws, which settles the task. Between the start and
  the end of a task the tasks of other conversations may start and end.
\<close>

datatype event = Submit jstring | Start nat | Finish nat "error + response"

definition setState :: "nat \<Rightarrow> pstate \<Rightarrow> queues \<Rightarrow> queues" where
  "setState i s q = q\<lparr>tasks := (tasks q)[i := (tasks q ! i)\<lparr>state := s\<rparr>]\<rparr>"

definition canStart :: "queues \<Rightarrow> nat \<Rightarrow> bool" where
  "canStart q i \<longleftrightarrow>
     i < length (tasks q) \<and> state (tasks q ! i) = Waiting \<and>
     (case awaits (tasks q ! i) of
        None \<Rightarrow> True
      | Some p \<Rightarrow> p < length (tasks q) \<and> isSettled (state (tasks q ! p)))"

fun step :: "event \<Rightarrow> queues \<Rightarrow> queues option" where
  "step (Submit conversationId) q = Some (snd (enqueueTurn conversationId q))"
| "step (Start i) q = (if canStart q i then Some (setState i Running q) else None)"
| "step (Finish i r) q =
     (if i < length (tasks q) \<and> state (tasks q ! i) = Running
      then Some (setState i (Settled r) q) else None)"

text \<open>A schedule is a list of events; it runs when each event can happen in its turn.\<close>

fun run :: "event list \<Rightarrow> queues \<Rightarrow> queues option" where
  "run [] q = Some q"
| "run (e # es) q = (case step e q of None \<Rightarrow> None | Some q' \<Rightarrow> run es q')"

text \<open>The conversation ids submitted in a schedule, in their order.\<close>

definition submitted :: "event list \<Rightarrow> jstring list" where
  "submitted es = concat (map (\<lambda>e. case e of Submit c \<Rightarrow> [c] | _ \<Rightarrow> []) es)"

definition finishOf :: "nat \<Rightarrow> event \<Rightarrow> bool" where
  "finishOf i e = (case e of Finish k r \<Rightarrow> k = i | _ \<Rightarrow> False)"

text \<open>
  Three facts that hold of the queues at all times: the table holds, for a conversation id,
  the last task made for it, and nothing for an id never submitted; a task waits for the
  task made before it for the same id; and when a task is running or settled, every
  earlier task of the same id is settled.
\<close>

definition lastOfKey :: "queues \<Rightarrow> bool" where
  "lastOfKey q \<longleftrightarrow>
     (\<forall>c. case turnQueues q c of
            None \<Rightarrow> (\<forall>j < length (tasks q). key (tasks q ! j) \<noteq> c)
          | Some i \<Rightarrow> i < length (tasks q) \<and> key (tasks q ! i) = c
                      \<and> (\<forall>j < length (tasks q). key (tasks q ! j) = c \<longrightarrow> j \<le> i))"

definition awaitsPrevious :: "queues \<Rightarrow> bool" where
  "awaitsPrevious q \<longleftrightarrow>
     (\<forall>j < length (tasks q).
        case awaits (tasks q ! j) of
          None \<Rightarrow> (\<forall>i < j. key (tasks q ! i) \<noteq> key (tasks q ! j))
        | Some p \<Rightarrow> p < j \<and> key (tasks q ! p) = key (tasks q ! j)
                    \<and> (\<forall>i < j. key (tasks q ! i) = key (tasks q ! j) \<longrightarrow> i \<le> p))"

definition oneAtATime :: "queues \<Rightarrow> bool" where
  "oneAtATime q \<longleftrightarrow>
     (\<forall>i j. i < j \<and> j < length (tasks q) \<and> key (tasks q ! i) = key (tasks q ! j)
            \<and> state (tasks q ! j) \<noteq> Waiting \<longrightarrow> isSettled (state (tasks q ! i)))"

definition queue_inv :: "queues \<Rightarrow> bool" where
  "queue_inv q \<longleftrightarrow> lastOfKey q \<and> awaitsPrevious q \<and> oneAtATime q"

section \<open>A registry, a conversation, providers and schedules to run the model on\<close>

text \<open>
  \<open>toLowerCase\<close> on the strings whose code units are all below U+0100: the letters
  \<open>A\<close> to \<open>Z\<close>, U+00C0 to U+00D6 and U+00D8 to U+00DE go to the code unit 32 higher, every
  other code unit below U+0100 stays. The strings of the samples are of this kind. A code
  unit from U+0100 on is left as it is here, which is not what the runtime does.
\<close>

definition toLowerCaseLatin1 :: "jstring \<Rightarrow> jstring" where
  "toLowerCaseLatin1 s =
     map (\<lambda>c. if (0x41 \<le> c \<and> c \<le> 0x5A) \<or> (0xC0 \<le> c \<and> c \<le> 0xD6) \<or> (0xD8 \<le> c \<and> c \<le> 0xDE)
              then c + 0x20 else c) s"

definition ada :: voice where
  "ada = \<lparr>vid = js ''v-ada'', vname = js ''Ada'', elevenLabsVoiceId = js ''el-ada'',
          systemPrompt = js ''You are Ada.'', vcreatedAt = js ''2024-01-01T00:00:00.000Z''\<rparr>"

definition didi :: voice where
  "didi = \<lparr>vid = js ''v-didi'', vname = js ''Didi'', elevenLabsVoiceId = js ''el-didi'',
           systemPrompt = js ''You are Didi.'', vcreatedAt = js ''2024-01-02T00:00:00.000Z''\<rparr>"

text \<open>A voice whose name begins with U+00C9, the capital E with acute.\<close>

definition emile :: voice where
  "emile = \<lparr>vid = js ''v-emile'', vname = 0xC9 # js ''mile'', elevenLabsVoiceId = js ''el-emile'',
            systemPrompt = js ''You are Emile.'', vcreatedAt = js ''2024-01-03T00:00:00.000Z''\<rparr>"

definition conv1 :: conversation where
  "conv1 = \<lparr>cid = js ''c1'', voiceId = js ''v-ada'', title = js ''New Conversation'',
            createdAt = js ''2024-02-01T00:00:00.000Z'', updatedAt = js ''2024-02-01T00:00:00.000Z'',
            messages = []\<rparr>"

definition world0 :: world where
  "world0 = \<lparr>conversations = [(js ''c1'') \<mapsto> conv1], voices = [ada, didi], files = Map.empty,
             calls = [], console = []\<rparr>"

definition ids :: "nat \<Rightarrow> jstring" where
  "ids n = (if n = 0 then js ''id-0'' else if n = 1 then js ''id-1'' else js ''id-2'')"

definition times :: "nat \<Rightarrow> jstring" where
  "times n = (if n = 0 then js ''time-0'' else if n = 1 then js ''time-1''
              else if n = 2 then js ''time-2'' else js ''time-3'')"

definition env0 :: env where
  \<open>env0 = \<lparr>parse = json_parse, toLowerCase = toLowerCaseLatin1,
            transcribeSpeech = (\<lambda>buf mimetype. Inr (js ''Hello how are you doing today friend'')),
            chat = (\<lambda>msgs. Inr (Some (js ''{"switchVoice":"Didi"}\<newline>Hello there.''))),
            generateSpeech = (\<lambda>handle t. Inr [0x49, 0x44, 0x33]),
            getVoices_error = None, getConversation_error = None,
            saveConversation_error = None, uploadFile_error = None, deleteFile_error = None,
            uuidv4 = ids, now = times\<rparr>\<close>

definition blankRequest :: turn_request where
  "blankRequest = \<lparr>params_id = js ''c1'', body_turnId = Some (js ''t1''),
                   body_transcribedText = Some [0x20, 0xA0, 0x2003, 0x0A], req_file = None\<rparr>"

definition audioRequest :: turn_request where
  "audioRequest = \<lparr>params_id = js ''c1'', body_turnId = Some (js ''t1''),
                   body_transcribedText = None, req_file = Some ([0x1A, 0x45, 0xDF, 0xA3], js ''audio/webm'')\<rparr>"

definition replayedConv :: conversation where
  "replayedConv = conv1\<lparr>messages := [newUserMessage env0 (js ''t1'') (js ''Hi''),
                                        newAiMessage env0 audioRequest (js ''t1'') (js ''Hello there.'')]\<rparr>"

definition replayWorld :: world where
  "replayWorld = world0\<lparr>conversations := [(js ''c1'') \<mapsto> replayedConv]\<rparr>"

definition diskFull :: error where
  "diskFull = Error None (js ''ENOSPC: no space left on device'')"

definition envSaveFails :: env where
  "envSaveFails = env0\<lparr>saveConversation_error := Some diskFull\<rparr>"

definition doubleSpaceRequest :: turn_request where
  "doubleSpaceRequest = \<lparr>params_id = js ''c1'', body_turnId = Some (js ''t1''),
      body_transcribedText = Some (js ''Hello  how are you doing today friend''), req_file = None\<rparr>"

definition envBare :: env where
  \<open>envBare = env0\<lparr>chat := (\<lambda>msgs. Inr (Some (js ''{"switchVoice":"Didi"}'')))\<rparr>\<close>

definition envBlank :: env where
  \<open>envBlank = env0\<lparr>chat := (\<lambda>msgs. Inr (Some (js ''{"switchVoice":" "}'')))\<rparr>\<close>

definition worldAdaDeleted :: world where
  "worldAdaDeleted = world0\<lparr>voices := [didi]\<rparr>"

definition worldNoVoices :: world where
  "worldNoVoices = world0\<lparr>voices := []\<rparr>"

text \<open>Schedules to run the queue on.\<close>

definition okResponse :: response where
  "okResponse = Response 200 (TurnBody None None None)"



text \<open>One turn each of two conversations, both run to the end.\<close>

definition drainSchedule :: "event list" where
  "drainSchedule = [Submit (js ''c1''), Start 0, Finish 0 (Inr okResponse),
                    Submit (js ''c2''), Start 1, Finish 1 (Inr okResponse)]"

definition drained :: queues where
  "drained =
     \<lparr>turnQueues = [(js ''c1'') \<mapsto> 0, (js ''c2'') \<mapsto> 1],
      tasks = [\<lparr>key = js ''c1'', awaits = None, state = Settled (Inr okResponse)\<rparr>,
               \<lparr>key = js ''c2'', awaits = None, state = Settled (Inr okResponse)\<rparr>]\<rparr>"

text \<open>One turn each of \<open>n\<close> conversations, all run to the end.\<close>

definition convId :: "nat \<Rightarrow> jstring" where
  "convId n = replicate (Suc n) (of_char (CHR ''c''))"

fun drainAll :: "nat \<Rightarrow> event list" where
  "drainAll 0 = []"
| "drainAll (Suc n) = drainAll n @ [Submit (convId n), Start n, Finish n (Inr okResponse)]"

section \<open>The wording of the specification, for comparison\<close>

text \<open>
  The match set as the specification words it: every persona whose display name is a
  case-insensitive substring of the candidate, or of which the candidate is one, the case
  being folded by the \<open>toLowerCase\<close> of the runtime. The
  candidate is taken as the directive carries it.
\<close>

definition spec_voiceMatches :: "env \<Rightarrow> jstring \<Rightarrow> voice list \<Rightarrow> voice list" where
  "spec_voiceMatches env c vs =
     filter (\<lambda>v. sublist (toLowerCase env (vname v)) (toLowerCase env c)
               \<or> sublist (toLowerCase env c) (toLowerCase env (vname v))) vs"

text \<open>
  The title as the specification words it: the first six white-space-separated words of the
  utterance, joined by single spaces, and the ellipsis. A word is a maximal run of
  characters that are not white space.
\<close>

fun splitWhere :: "(unit16 \<Rightarrow> bool) \<Rightarrow> jstring \<Rightarrow> jstring list" where
  "splitWhere sep [] = [[]]"
| "splitWhere sep (c # cs) =
     (if sep c then [] # splitWhere sep cs
      else (case splitWhere sep cs of [] \<Rightarrow> [[c]] | p # ps \<Rightarrow> (c # p) # ps))"

definition spec_words :: "jstring \<Rightarrow> jstring list" where
  "spec_words s = filter (\<lambda>p. p \<noteq> []) (splitWhere isSpace s)"

definition spec_title :: "jstring \<Rightarrow> jstring" where
  "spec_title userText = join (js '' '') (take 6 (spec_words userText)) @ ELLIPSIS"

text \<open>The consumed fragment stripped from the reply, as the specification words it: the text
  without the first occurrence of the fragment.\<close>

fun spec_strip :: "jstring \<Rightarrow> jstring \<Rightarrow> jstring" where
  "spec_strip fragment [] = []"
| "spec_strip fragment (c # cs) =
     (if prefix fragment (c # cs) then drop (length fragment) (c # cs)
      else c # spec_strip fragment cs)"

section \<open>Notions to state what the extractor finds\<close>

text \<open>What a match of a pattern is made of: one piece of the text for each item.\<close>

fun piece_ok :: "rx \<Rightarrow> jstring \<Rightarrow> bool" where
  "piece_ok (Lit l) w = (w = l)"
| "piece_ok (Opt l) w = (w = l \<or> w = [])"
| "piece_ok (Star p) w = list_all p w"
| "piece_ok CapOpen w = (w = [])"
| "piece_ok CapClose w = (w = [])"

text \<open>The bounds of the capture group, from the pieces.\<close>

fun caps :: "rx list \<Rightarrow> jstring list \<Rightarrow> nat \<Rightarrow> nat \<times> nat \<Rightarrow> nat \<times> nat" where
  "caps (CapOpen # rs) (w # ws) pos cap = caps rs ws pos (pos, snd cap)"
| "caps (CapClose # rs) (w # ws) pos cap = caps rs ws pos (fst cap, pos)"
| "caps (r # rs) (w # ws) pos cap = caps rs ws (pos + length w) cap"
| "caps rs ws pos cap = cap"

text \<open>What one round of the loop over the lines finds in a line.\<close>

definition lineSwitchVoice :: "(jstring \<Rightarrow> json option) \<Rightarrow> jstring \<Rightarrow> jstring option" where
  "lineSwitchVoice pr l =
     (case rx_search RX_LINE l 0 of
        None \<Rightarrow> None
      | Some (a, b) \<Rightarrow> parsedSwitchVoice pr (substring a b l))"

text \<open>
  The shapes the three strategies look for. An object is an opening brace, code units other
  than the line feed, and a closing brace. A blank line end is white space that ends in a line
  feed.
\<close>

definition object :: "jstring \<Rightarrow> bool" where
  "object fragment \<longleftrightarrow>
     (\<exists>body. fragment = js ''{'' @ body @ js ''}'' \<and> list_all notNewline body)"

definition blankLineEnd :: "jstring \<Rightarrow> bool" where
  "blankLineEnd sp \<longleftrightarrow> list_all isSpace sp \<and> sp \<noteq> [] \<and> last sp = 0x0A"

text \<open>The text is a fence, an optional \<open>json\<close>, a blank line end, an object, a blank line
  end, a fence, and a rest.\<close>

definition fencedBlock :: "jstring \<Rightarrow> jstring \<Rightarrow> jstring \<Rightarrow> bool" where
  "fencedBlock text fragment rest \<longleftrightarrow>
     object fragment \<and>
     (\<exists>j sp1 sp2. text = FENCE @ j @ sp1 @ fragment @ sp2 @ FENCE @ rest
        \<and> (j = js ''json'' \<or> j = []) \<and> blankLineEnd sp1 \<and> blankLineEnd sp2)"

text \<open>The text is an object and a rest, and the object ends with the last closing brace
  of the first line of the text.\<close>

definition objectAtStart :: "jstring \<Rightarrow> jstring \<Rightarrow> jstring \<Rightarrow> bool" where
  "objectAtStart text fragment rest \<longleftrightarrow>
     object fragment \<and> text = fragment @ rest
     \<and> of_char (CHR ''}'') \<notin> set (takeWhile notNewline rest)"

text \<open>In a line, the object from the first opening brace to the last closing brace.\<close>

definition objectInLine :: "jstring \<Rightarrow> jstring \<Rightarrow> bool" where
  "objectInLine line fragment \<longleftrightarrow>
     object fragment \<and>
     (\<exists>p q. line = p @ fragment @ q
        \<and> of_char (CHR ''{'') \<notin> set p \<and> of_char (CHR ''}'') \<notin> set q)"

section \<open>Properties of the string functions\<close>

lemma unat_of_char: "unat (of_char c :: unit16) = of_char c"
proof -
  have "(of_char c :: nat) < 256"
    by (cases c) (simp add: of_char_def horner_sum_bit_eq_take_bit)
  also have "(256 :: nat) < 2 ^ 16"
    by simp
  finally have "(of_char c :: nat) < 2 ^ 16" .
  then show ?thesis
    unfolding of_nat_of_char [symmetric, where ?'a = unit16] by (simp add: unat_of_nat)
qed

lemma inj_of_char: "inj (of_char :: char \<Rightarrow> unit16)"
proof (rule injI)
  fix c d :: char
  assume "(of_char c :: unit16) = of_char d"
  then have "unat (of_char c :: unit16) = unat (of_char d :: unit16)"
    by simp
  then show "c = d"
    by (simp add: unat_of_char)
qed

lemma js_Nil [simp]: "js [] = []"
  by (simp add: js_def)

lemma js_Cons: "js (c # s) = of_char c # js s"
  by (simp add: js_def)

lemma js_eq_iff [simp]: "js a = js b \<longleftrightarrow> a = b"
  by (simp add: js_def inj_map_eq_map inj_of_char)

lemma js_eq_Nil [simp]: "js a = [] \<longleftrightarrow> a = []" "[] = js a \<longleftrightarrow> a = []"
  by (auto simp: js_def)

lemma length_js [simp]: "length (js s) = length s"
  by (simp add: js_def)

lemma js_append [simp]: "js a @ js b = js (a @ b)" "js a @ js b @ r = js (a @ b) @ r"
  by (simp_all add: js_def)

lemma all_dropWhile_iff: "(\<forall>x \<in> set (dropWhile P xs). P x) \<longleftrightarrow> (\<forall>x \<in> set xs. P x)"
  by (induction xs) auto

lemma trim_empty_iff: "trim t = [] \<longleftrightarrow> (\<forall>c \<in> set t. isSpace c)"
  by (simp add: trim_def dropWhile_eq_Nil_conv all_dropWhile_iff)

lemma hasText_iff:
  "hasText req \<longleftrightarrow> (\<exists>t. body_transcribedText req = Some t \<and> (\<exists>c \<in> set t. \<not> isSpace c))"
  by (auto simp: hasText_def trim_empty_iff split: option.splits)

section \<open>Validation of a turn request\<close>

text \<open>
  C8. A turn request with no uploaded audio and with no transcribed text, or with a transcribed
  text of white space only (the white space that \<open>trim\<close> removes, the no-break space and
  the other space separators of Unicode among it), is answered with status 400: with
  \<open>turnId is required\<close> when
  the turn id is missing or empty, else with \<open>audio file or transcribedText is required\<close>.
  The state is returned as it was: no conversation is read (the answer is the same whether or
  not the conversation exists), no provider is called, nothing is stored or logged.
\<close>

theorem turn_without_input_rejected:
  assumes "req_file req = None"
    and "\<forall>t. body_transcribedText req = Some t \<longrightarrow> (\<forall>c \<in> set t. isSpace c)"
  shows "postTurn env req w =
           (Response 400
              (ErrorBody (if body_turnId req = None \<or> body_turnId req = Some []
                          then js ''turnId is required''
                          else js ''audio file or transcribedText is required'')), w)"
proof -
  have "\<not> hasText req"
    using assms(2) by (auto simp: hasText_iff)
  with assms(1) show ?thesis
    by (auto simp: postTurn_def turnTask_def split: option.splits)
qed

theorem turn_without_input_rejected_witness:
  "postTurn env0 blankRequest world0
     = (Response 400 (ErrorBody (js ''audio file or transcribedText is required'')), world0)"
proof -
  have a: "req_file blankRequest = None"
    by (simp add: blankRequest_def)
  have b: "\<forall>t. body_transcribedText blankRequest = Some t \<longrightarrow> (\<forall>c \<in> set t. isSpace c)"
    by (simp add: blankRequest_def isSpace_def)
  have c: "\<not> (body_turnId blankRequest = None \<or> body_turnId blankRequest = Some [])"
    by (simp add: blankRequest_def)
  show ?thesis
    using turn_without_input_rejected [OF a b, of env0 world0] c by simp
qed

section \<open>Replay of a turn that was already processed\<close>

lemma find_filter: "find P (filter Q xs) = find (\<lambda>x. Q x \<and> P x) xs"
  by (induction xs) auto

text \<open>The entries the idempotency check answers with, read off the stored messages.\<close>

lemma replay_entries:
  "replay tid (existingFor tid conv) =
     Response 200
       (TurnBody
          (find (\<lambda>m. turnId m = Some tid \<and> role m = js ''user'') (messages conv))
          (find (\<lambda>m. turnId m = Some tid \<and> role m = js ''assistant'') (messages conv))
          (find (\<lambda>m. turnId m = Some tid \<and> role m = js ''system''
                       \<and> mtype m = Some (js ''voiceSwitch'')) (messages conv)))"
  by (simp add: replay_def existingFor_def find_filter cong: conj_cong)

lemma known_turn_replayed:
  assumes "body_turnId req = Some tid" and "tid \<noteq> []"
    and "req_file req \<noteq> None \<or> hasText req"
    and "getConversation env w (params_id req) = Inr conv"
    and "existingFor tid conv \<noteq> []"
  shows "postTurn env req w = (replay tid (existingFor tid conv), w)"
  using assms by (auto simp: postTurn_def turnTask_def)

text \<open>
  C1. A request that passes the validation (a non-empty turn id, and a file or a non-blank
  text) and whose turn id stands on a message of the loaded conversation is answered with
  status 200 and the first stored message of that turn with role \<open>user\<close>, the first with
  role \<open>assistant\<close>, and the first voice switch event of that turn if there is one. The
  state is returned as it was: no provider call is recorded, no entry is appended, no
  record is saved, no time stamp is touched, nothing is logged.
\<close>

theorem turn_replay:
  assumes "body_turnId req = Some tid" and "tid \<noteq> []"
    and "req_file req \<noteq> None \<or> hasText req"
    and "getConversation env w (params_id req) = Inr conv"
    and "m \<in> set (messages conv)" and "turnId m = Some tid"
  shows "postTurn env req w =
           (Response 200
              (TurnBody
                 (find (\<lambda>m. turnId m = Some tid \<and> role m = js ''user'') (messages conv))
                 (find (\<lambda>m. turnId m = Some tid \<and> role m = js ''assistant'') (messages conv))
                 (find (\<lambda>m. turnId m = Some tid \<and> role m = js ''system''
                              \<and> mtype m = Some (js ''voiceSwitch'')) (messages conv))), w)"
proof -
  have "existingFor tid conv \<noteq> []"
    using assms(5,6) by (auto simp: existingFor_def filter_empty_conv)
  from known_turn_replayed [OF assms(1-4) this] show ?thesis
    by (simp add: replay_entries)
qed

theorem turn_replay_witness:
  "postTurn env0 audioRequest replayWorld =
     (Response 200 (TurnBody (Some (newUserMessage env0 (js ''t1'') (js ''Hi'')))
        (Some (newAiMessage env0 audioRequest (js ''t1'') (js ''Hello there.''))) None), replayWorld)"
proof -
  have c: "getConversation env0 replayWorld (params_id audioRequest) = Inr replayedConv"
    by (simp add: getConversation_def replayWorld_def audioRequest_def env0_def world0_def)
  have m: "newUserMessage env0 (js ''t1'') (js ''Hi'') \<in> set (messages replayedConv)"
    by (simp add: replayedConv_def)
  show ?thesis
    using turn_replay [of audioRequest "(js ''t1'')" env0 replayWorld replayedConv, OF _ _ _ c m]
    by (simp add: audioRequest_def replayedConv_def newUserMessage_def newAiMessage_def)
qed

section \<open>The steps of the pipeline, one by one\<close>


lemma uploadFile_ok:
  "uploadFile env sid path buf w = (Inr r, w') \<Longrightarrow>
     uploadFile_error env = None \<and>
     w' = w\<lparr>files := (files w)((sid, path) \<mapsto> Blob buf, (sid, metaPath path) \<mapsto> Sidecar)\<rparr>"
  by (auto simp: uploadFile_def split: option.splits fs_failure.splits)



section \<open>The sample reply\<close>

lemma sample_signal:
  \<open>extractSwitchVoiceSignal json_parse (js ''{"switchVoice":"Didi"}\<newline>Hello there.'')
     = Some \<lparr>switchVoice = js ''Didi'', replyText = js ''Hello there.''\<rparr>\<close>
  by code_simp

lemma sample_trim:
  \<open>trim (js ''{"switchVoice":"Didi"}\<newline>Hello there.'')
     = js ''{"switchVoice":"Didi"}\<newline>Hello there.''\<close>
  by code_simp

lemma sample_trim_name: "trim (js ''Didi'') = (js ''Didi'')"
  by code_simp

lemma env0_fields:
  \<open>parse env0 = json_parse\<close>
  \<open>toLowerCase env0 = toLowerCaseLatin1\<close>
  \<open>transcribeSpeech env0 buf mimetype = Inr (js ''Hello how are you doing today friend'')\<close>
  \<open>chat env0 msgs = Inr (Some (js ''{"switchVoice":"Didi"}\<newline>Hello there.''))\<close>
  \<open>generateSpeech env0 handle t = Inr [0x49, 0x44, 0x33]\<close>
  \<open>getVoices_error env0 = None\<close>
  \<open>getConversation_error env0 = None\<close>
  \<open>saveConversation_error env0 = None\<close>
  \<open>uploadFile_error env0 = None\<close>
  \<open>deleteFile_error env0 = None\<close>
  \<open>uuidv4 env0 = ids\<close>
  \<open>now env0 = times\<close>
  by (simp_all add: env0_def)


lemma envBare_fields:
  \<open>parse envBare = json_parse\<close>
  \<open>toLowerCase envBare = toLowerCaseLatin1\<close>
  \<open>transcribeSpeech envBare buf mimetype = Inr (js ''Hello how are you doing today friend'')\<close>
  \<open>chat envBare msgs = Inr (Some (js ''{"switchVoice":"Didi"}''))\<close>
  \<open>generateSpeech envBare handle t = Inr [0x49, 0x44, 0x33]\<close>
  \<open>getVoices_error envBare = None\<close>
  \<open>getConversation_error envBare = None\<close>
  \<open>saveConversation_error envBare = None\<close>
  \<open>uploadFile_error envBare = None\<close>
  \<open>deleteFile_error envBare = None\<close>
  \<open>uuidv4 envBare = ids\<close>
  \<open>now envBare = times\<close>
  by (simp_all add: envBare_def env0_def)

lemma envBlank_fields:
  \<open>parse envBlank = json_parse\<close>
  \<open>toLowerCase envBlank = toLowerCaseLatin1\<close>
  \<open>transcribeSpeech envBlank buf mimetype = Inr (js ''Hello how are you doing today friend'')\<close>
  \<open>chat envBlank msgs = Inr (Some (js ''{"switchVoice":" "}''))\<close>
  \<open>generateSpeech envBlank handle t = Inr [0x49, 0x44, 0x33]\<close>
  \<open>getVoices_error envBlank = None\<close>
  \<open>getConversation_error envBlank = None\<close>
  \<open>saveConversation_error envBlank = None\<close>
  \<open>uploadFile_error envBlank = None\<close>
  \<open>deleteFile_error envBlank = None\<close>
  \<open>uuidv4 envBlank = ids\<close>
  \<open>now envBlank = times\<close>
  by (simp_all add: envBlank_def env0_def)

lemma voiceMatches_samples [simp]:
  "voiceMatches envSaveFails = voiceMatches env0"
  "voiceMatches envBare = voiceMatches env0"
  "voiceMatches envBlank = voiceMatches env0"
  "spec_voiceMatches envBare = spec_voiceMatches env0"
  "spec_voiceMatches envBlank = spec_voiceMatches env0"
  by (simp_all add: fun_eq_iff voiceMatches_def spec_voiceMatches_def envSaveFails_def
        envBare_def envBlank_def)

lemma sample_matches: "voiceMatches env0 (js ''Didi'') [ada, didi] = [didi]"
  by code_simp

section \<open>Cleanup after a failure behind the stored audio\<close>



text \<open>
  A failure before \<open>audioSaved\<close> is set runs no cleanup: the error is logged and answered.
  This is also the path of a failure inside \<open>uploadFile\<close> after the audio file itself is
  written, when the write of the metadata sidecar fails: the step of storing has failed, and
  the file written stays.
\<close>

lemma uploadFile_sidecar_failure:
  "uploadFile_error env = Some (AtSecond e) \<Longrightarrow>
   uploadFile env sid path buf w = (Inl e, w\<lparr>files := (files w)((sid, path) \<mapsto> Blob buf)\<rparr>)"
  by (simp add: uploadFile_def)

lemma no_cleanup_before_saved:
  assumes "body_turnId req = Some tid" and "tid \<noteq> []"
    and "req_file req \<noteq> None \<or> hasText req"
    and "getConversation env w (params_id req) = Inr conv"
    and "existingFor tid conv = []"
    and "tryPipeline env req tid conv w = (Inl (e, False), w1)"
  shows "postTurn env req w =
           (Response (statusOr500 e) (ErrorBody (errmsg e)),
            w1\<lparr>console := console w1 @ [ErrorTurnPipelineFailed (errmsg e)]\<rparr>)"
  using assms
  by (auto simp: postTurn_def turnTask_def catchPipeline_def Let_def)

section \<open>A turn that runs to the end\<close>

lemma persistTurn_done:
  "persistTurn env req tid conv v userText b w = (Inr r, w') \<Longrightarrow>
     saveConversation_error env = None
   \<and> r = Response 200
           (TurnBody (Some (newUserMessage env tid userText))
              (Some (newAiMessage env req tid (reply b)))
              (map_option (newVoiceSwitchEvent env tid conv v) (pendingSwitch b)))
   \<and> w' = w\<lparr>conversations := (conversations w)
                 (cid (appendTurn env req tid conv v userText b)
                    \<mapsto> appendTurn env req tid conv v userText b),
             console := console w @ [LogTurnSaved (params_id req)]\<rparr>"
  by (auto simp: persistTurn_def saveConversation_def split: option.splits)

lemma cid_appendTurn: "cid (appendTurn env req tid conv v userText b) = cid conv"
  by (simp add: appendTurn_def Let_def split: option.splits)

lemma obtainUserText_ok:
  "obtainUserText env req w = (Inr userText, w') \<Longrightarrow>
     conversations w' = conversations w \<and> files w' = files w \<and> voices w' = voices w
     \<and> console w' = console w"
  by (auto simp: obtainUserText_def transcribeFile_def split: option.splits if_splits prod.splits)

lemma tryPipeline_done_ex:
  assumes "tryPipeline env req tid conv w = (Inr (Response 200 (TurnBody u a ev)), w')"
  shows "\<exists>v userText aiText w1 b.
           getVoices_error env = None
         \<and> find (\<lambda>v. vid v = voiceId conv) (voices w) = Some v
         \<and> obtainUserText env req (w\<lparr>console := console w @ [LogTranscribing tid]\<rparr>)
             = (Inr userText, w1)
         \<and> chat env (llmMessages v conv userText) = Inr aiText
         \<and> b = resolveSignal env (voices w) v conv (trimmedAiText aiText)
                 (extractSwitchVoiceSignal (parse env) (trimmedAiText aiText))
         \<and> u = Some (newUserMessage env tid userText)
         \<and> a = Some (newAiMessage env req tid (reply b))
         \<and> ev = map_option (newVoiceSwitchEvent env tid conv v) (pendingSwitch b)
         \<and> calls w' = calls w1 @ [Chat (llmMessages v conv userText),
                                  Synthesize (ttsElevenLabsVoiceId b) (reply b)]
         \<and> conversations w'
             = (conversations w)(cid conv \<mapsto> appendTurn env req tid conv v userText b)"
  using assms
  by (auto simp: tryPipeline_def Let_def getVoices_def cid_appendTurn
        split: sum.splits option.splits prod.splits
        dest!: persistTurn_done uploadFile_ok obtainUserText_ok)

lemma tryPipeline_done:
  assumes "tryPipeline env req tid conv w = (Inr (Response 200 (TurnBody u a ev)), w')"
  obtains v userText aiText w1 b where
    "getVoices_error env = None"
    and "find (\<lambda>v. vid v = voiceId conv) (voices w) = Some v"
    and "obtainUserText env req (w\<lparr>console := console w @ [LogTranscribing tid]\<rparr>)
           = (Inr userText, w1)"
    and "chat env (llmMessages v conv userText) = Inr aiText"
    and "b = resolveSignal env (voices w) v conv (trimmedAiText aiText)
               (extractSwitchVoiceSignal (parse env) (trimmedAiText aiText))"
    and "u = Some (newUserMessage env tid userText)"
    and "a = Some (newAiMessage env req tid (reply b))"
    and "ev = map_option (newVoiceSwitchEvent env tid conv v) (pendingSwitch b)"
    and "calls w' = calls w1 @ [Chat (llmMessages v conv userText),
                                Synthesize (ttsElevenLabsVoiceId b) (reply b)]"
    and "conversations w'
           = (conversations w)(cid conv \<mapsto> appendTurn env req tid conv v userText b)"
  using tryPipeline_done_ex [OF assms] by (elim exE conjE) (rule that)

lemma turn_done:
  assumes "body_turnId req = Some tid"
    and "getConversation env w (params_id req) = Inr conv"
    and "existingFor tid conv = []"
    and "postTurn env req w = (Response 200 (TurnBody u a ev), w')"
  shows "tryPipeline env req tid conv w = (Inr (Response 200 (TurnBody u a ev)), w')"
  using assms
  by (auto simp: postTurn_def turnTask_def catchPipeline_def Let_def
        split: sum.splits option.splits prod.splits if_splits)

section \<open>The title of a conversation\<close>

lemma includes_js_sublist: "includes_js s t \<longleftrightarrow> sublist t s"
  by (induction s) (auto simp: sublist_Cons_right)

lemma voiceMatches_sublist:
  "voiceMatches env c vs =
     filter (\<lambda>v. sublist (toLowerCase env c) (toLowerCase env (vname v))
               \<or> sublist (toLowerCase env (vname v)) (toLowerCase env c)) vs"
  by (simp add: voiceMatches_def includes_js_sublist)

lemma title_appendTurn:
  "title (appendTurn env req tid conv v userText b)
     = (if title conv = js ''New Conversation'' then deriveTitle userText else title conv)"
  by (simp add: appendTurn_def Let_def split: option.splits)

text \<open>
  C9, as amended. Let a fresh turn end with status 200 and its entries. Then the returned user
  entry carries the user's text, and the conversation saved under the id of the loaded record
  has this title: when the loaded title is \<open>New Conversation\<close>, the first six pieces of the
  user's text split at every single space character (two spaces in a row give an empty piece,
  which counts; tabs and line feeds do not split), joined by single spaces, followed by the
  ellipsis U+2026; otherwise the loaded title.
\<close>

theorem title_derivation:
  assumes "body_turnId req = Some tid"
    and "getConversation env w (params_id req) = Inr conv"
    and "existingFor tid conv = []"
    and "postTurn env req w = (Response 200 (TurnBody (Some u) a ev), w')"
  shows "\<exists>userText c'. content u = Some userText \<and> conversations w' (cid conv) = Some c'
           \<and> title c' = (if title conv = js ''New Conversation''
                          then join (js '' '') (take 6 (split 0x20 userText)) @ ELLIPSIS
                          else title conv)"
proof -
  from turn_done [OF assms]
  obtain v userText b where
    u: "Some u = Some (newUserMessage env tid userText)"
    and c: "conversations w' = (conversations w)(cid conv \<mapsto>
              appendTurn env req tid conv v userText b)"
    by (rule tryPipeline_done)
  from u have "content u = Some userText"
    by (simp add: newUserMessage_def)
  with c show ?thesis
    by (simp add: title_appendTurn deriveTitle_def)
qed

lemma ada_fields:
  "vid ada = (js ''v-ada'')" "vname ada = (js ''Ada'')" "elevenLabsVoiceId ada = (js ''el-ada'')"
  "systemPrompt ada = (js ''You are Ada.'')"
  by (simp_all add: ada_def)

lemma didi_fields:
  "vid didi = (js ''v-didi'')" "vname didi = (js ''Didi'')" "elevenLabsVoiceId didi = (js ''el-didi'')"
  "systemPrompt didi = (js ''You are Didi.'')"
  by (simp_all add: didi_def)

lemmas sample_defs =
  postTurn_def turnTask_def getConversation_def existingFor_def tryPipeline_def getVoices_def
  obtainUserText_def transcribeFile_def trimmedAiText_def orNoResponse_def resolveSignal_def
  uploadFile_def persistTurn_def saveConversation_def hasText_def Let_def
  env0_fields world0_def conv1_def audioRequest_def ada_fields didi_fields
  sample_trim sample_signal sample_trim_name sample_matches

lemma sample_turn_response:
  "fst (postTurn env0 audioRequest world0)
     = Response 200
         (TurnBody (Some (newUserMessage env0 (js ''t1'') (js ''Hello how are you doing today friend'')))
            (Some (newAiMessage env0 audioRequest (js ''t1'') (js ''Hello there.'')))
            (Some (newVoiceSwitchEvent env0 (js ''t1'') conv1 ada didi)))"
  by (simp add: sample_defs)

lemma sample_turn:
  "postTurn env0 audioRequest world0
     = (Response 200
         (TurnBody (Some (newUserMessage env0 (js ''t1'') (js ''Hello how are you doing today friend'')))
            (Some (newAiMessage env0 audioRequest (js ''t1'') (js ''Hello there.'')))
            (Some (newVoiceSwitchEvent env0 (js ''t1'') conv1 ada didi))),
        snd (postTurn env0 audioRequest world0))"
  using sample_turn_response by (metis prod.collapse)

lemma sample_loaded: "getConversation env0 world0 (params_id audioRequest) = Inr conv1"
  by (simp add: getConversation_def env0_def world0_def audioRequest_def)

lemma sample_fresh: "existingFor (js ''t1'') conv1 = []"
  by (simp add: existingFor_def conv1_def)

lemma sample_title:
  "join (js '' '') (take 6 (split 0x20 (js ''Hello how are you doing today friend'')))
     = (js ''Hello how are you doing today'')"
  by code_simp

theorem title_derivation_witness:
  "map_option title (conversations (snd (postTurn env0 audioRequest world0)) (js ''c1''))
     = Some (js ''Hello how are you doing today'' @ ELLIPSIS)"
proof -
  have t: "body_turnId audioRequest = Some (js ''t1'')"
    by (simp add: audioRequest_def)
  from title_derivation [OF t sample_loaded sample_fresh sample_turn]
  show ?thesis
    by (auto simp: newUserMessage_def conv1_def sample_title)
qed

lemma double_trim:
  "trim (js ''Hello  how are you doing today friend'') = (js ''Hello  how are you doing today friend'')"
  by code_simp

lemma double_title:
  "deriveTitle (js ''Hello  how are you doing today friend'') = js ''Hello  how are you doing'' @ ELLIPSIS"
  by code_simp

lemma double_spec_title:
  "spec_title (js ''Hello  how are you doing today friend'') = js ''Hello how are you doing today'' @ ELLIPSIS"
  by code_simp

text \<open>
  C9 as stated fails on a text with two spaces in a row: of
  \<open>Hello  how are you doing today friend\<close> the saved title keeps the pieces
  \<open>Hello\<close>, the empty piece, \<open>how\<close>, \<open>are\<close>, \<open>you\<close>, \<open>doing\<close>, where the first six
  white-space-separated words end with \<open>today\<close>.
\<close>

theorem title_derivation_counterexample:
  "fst (postTurn env0 doubleSpaceRequest world0)
     = Response 200
         (TurnBody (Some (newUserMessage env0 (js ''t1'') (js ''Hello  how are you doing today friend'')))
            (Some (newAiMessage env0 doubleSpaceRequest (js ''t1'') (js ''Hello there.'')))
            (Some (newVoiceSwitchEvent env0 (js ''t1'') conv1 ada didi)))
   \<and> map_option title (conversations (snd (postTurn env0 doubleSpaceRequest world0)) (js ''c1''))
       = Some (js ''Hello  how are you doing'' @ ELLIPSIS)
   \<and> spec_title (js ''Hello  how are you doing today friend'')
       = js ''Hello how are you doing today'' @ ELLIPSIS"
  by (simp add: sample_defs doubleSpaceRequest_def double_trim appendTurn_def double_title
        double_spec_title)

section \<open>A turn that switches the persona\<close>

lemma resolveSignal_pending:
  assumes "pendingSwitch (resolveSignal env vs v conv t sr) = Some m"
  shows "\<exists>sig. sr = Some sig \<and> voiceMatches env (trim (switchVoice sig)) vs = [m]
           \<and> vid m \<noteq> voiceId conv
           \<and> resolveSignal env vs v conv t sr
               = \<lparr>reply = orNoResponse (replyText sig),
                  ttsElevenLabsVoiceId = elevenLabsVoiceId m, pendingSwitch = Some m\<rparr>"
  using assms
  by (auto simp: resolveSignal_def Let_def split: option.splits list.splits if_splits)

lemma appendTurn_switch:
  assumes "pendingSwitch b = Some m"
  shows "voiceId (appendTurn env req tid conv v userText b) = vid m"
    and "messages (appendTurn env req tid conv v userText b)
           = messages conv @ [newUserMessage env tid userText, newAiMessage env req tid (reply b),
                              newVoiceSwitchEvent env tid conv v m]"
  using assms by (simp_all add: appendTurn_def Let_def)

lemma appendTurn_no_switch:
  assumes "pendingSwitch b = None"
  shows "voiceId (appendTurn env req tid conv v userText b) = voiceId conv"
    and "messages (appendTurn env req tid conv v userText b)
           = messages conv @ [newUserMessage env tid userText, newAiMessage env req tid (reply b)]"
  using assms by (simp_all add: appendTurn_def Let_def)

text \<open>
  C10. Let a fresh turn end with status 200 and a voice switch event \<open>e\<close> among its entries
  (the outcome of the signal resolution was a switch). Then the reply of the reasoning
  provider carried a signal, and the match set of its trimmed name over the registry is one
  persona, \<open>matched\<close>, other than the active one. The conversation saved has \<open>matched\<close> as
  its active voice; its entries are the loaded ones followed by the user entry, the assistant
  entry and \<open>e\<close>, in this order; and \<open>e\<close>, of subtype \<open>switch\<close> and with the turn id,
  records the id of the voice that was active and the name of the registered voice of that id
  as its source, and the id and the name of \<open>matched\<close> as its target.
\<close>

theorem switch_persisted:
  assumes "body_turnId req = Some tid"
    and "getConversation env w (params_id req) = Inr conv"
    and "existingFor tid conv = []"
    and "postTurn env req w = (Response 200 (TurnBody u a (Some e)), w')"
  shows "\<exists>v matched userText aiText sig um am c'.
           find (\<lambda>v. vid v = voiceId conv) (voices w) = Some v
         \<and> chat env (llmMessages v conv userText) = Inr aiText
         \<and> extractSwitchVoiceSignal (parse env) (trimmedAiText aiText) = Some sig
         \<and> voiceMatches env (trim (switchVoice sig)) (voices w) = [matched]
         \<and> vid matched \<noteq> voiceId conv
         \<and> u = Some um \<and> role um = js ''user'' \<and> content um = Some userText
         \<and> a = Some am \<and> role am = js ''assistant''
         \<and> conversations w' (cid conv) = Some c'
         \<and> voiceId c' = vid matched
         \<and> messages c' = messages conv @ [um, am, e]
         \<and> turnId e = Some tid \<and> mtype e = Some (js ''voiceSwitch'')
         \<and> subtype e = Some (js ''switch'')
         \<and> fromVoiceId e = Some (voiceId conv) \<and> fromVoiceName e = Some (vname v)
         \<and> toVoiceId e = Some (vid matched) \<and> toVoiceName e = Some (vname matched)"
proof -
  from turn_done [OF assms]
  obtain v userText aiText and w1 :: world and b where
    v: "find (\<lambda>v. vid v = voiceId conv) (voices w) = Some v"
    and ch: "chat env (llmMessages v conv userText) = Inr aiText"
    and b: "b = resolveSignal env (voices w) v conv (trimmedAiText aiText)
                  (extractSwitchVoiceSignal (parse env) (trimmedAiText aiText))"
    and u: "u = Some (newUserMessage env tid userText)"
    and a: "a = Some (newAiMessage env req tid (reply b))"
    and e: "Some e = map_option (newVoiceSwitchEvent env tid conv v) (pendingSwitch b)"
    and c: "conversations w' = (conversations w)(cid conv \<mapsto> appendTurn env req tid conv v userText b)"
    by (rule tryPipeline_done)
  from e obtain m where m: "pendingSwitch b = Some m" and e': "e = newVoiceSwitchEvent env tid conv v m"
    by (cases "pendingSwitch b") auto
  from resolveSignal_pending [OF m [unfolded b]]
  obtain sig :: signal where
    sg: "extractSwitchVoiceSignal (parse env) (trimmedAiText aiText) = Some sig"
    and ms: "voiceMatches env (trim (switchVoice sig)) (voices w) = [m]"
    and d: "vid m \<noteq> voiceId conv"
    by auto
  have c': "conversations w' (cid conv) = Some (appendTurn env req tid conv v userText b)"
    by (simp add: c)
  show ?thesis
    apply (rule exI [of _ v], rule exI [of _ m], rule exI [of _ userText])
    apply (rule exI [of _ aiText], rule exI [of _ sig])
    apply (rule exI [of _ "newUserMessage env tid userText"])
    apply (rule exI [of _ "newAiMessage env req tid (reply b)"])
    apply (rule exI [of _ "appendTurn env req tid conv v userText b"])
    using v ch sg ms d u a c' e' appendTurn_switch [OF m, of env req tid conv v userText]
    apply (simp add: newUserMessage_def newAiMessage_def newVoiceSwitchEvent_def)
    done
qed

theorem switch_persisted_witness:
  "map_option voiceId (conversations (snd (postTurn env0 audioRequest world0)) (js ''c1''))
     = Some (js ''v-didi'')
   \<and> map_option messages (conversations (snd (postTurn env0 audioRequest world0)) (js ''c1''))
     = Some [newUserMessage env0 (js ''t1'') (js ''Hello how are you doing today friend''),
             newAiMessage env0 audioRequest (js ''t1'') (js ''Hello there.''),
             newVoiceSwitchEvent env0 (js ''t1'') conv1 ada didi]"
proof -
  have t: "body_turnId audioRequest = Some (js ''t1'')"
    by (simp add: audioRequest_def)
  from switch_persisted [OF t sample_loaded sample_fresh sample_turn]
  show ?thesis
    by (auto simp: conv1_def newVoiceSwitchEvent_def didi_fields)
qed

section \<open>A second submission of the same turn\<close>

lemma find_append_none:
  "\<forall>x \<in> set xs. \<not> P x \<Longrightarrow> find P (xs @ ys) = find P ys"
  by (induction xs) auto

text \<open>
  The same request again, after a fresh turn that ran to the end on a conversation stored
  under its own id: the answer is the answer of the first time, and the state is left as the
  first time left it.
\<close>

lemma replay_after_success:
  assumes "body_turnId req = Some tid" and "tid \<noteq> []"
    and "req_file req \<noteq> None \<or> hasText req"
    and "getConversation env w (params_id req) = Inr conv"
    and "cid conv = params_id req"
    and "existingFor tid conv = []"
    and "postTurn env req w = (Response 200 (TurnBody u a ev), w')"
  shows "postTurn env req w' = (Response 200 (TurnBody u a ev), w')"
proof -
  from turn_done [OF assms(1,4,6,7)]
  obtain v userText aiText and w1 :: world and b where
    u: "u = Some (newUserMessage env tid userText)"
    and a: "a = Some (newAiMessage env req tid (reply b))"
    and e: "ev = map_option (newVoiceSwitchEvent env tid conv v) (pendingSwitch b)"
    and c: "conversations w' = (conversations w)(cid conv \<mapsto> appendTurn env req tid conv v userText b)"
    by (rule tryPipeline_done)
  define conv' where "conv' = appendTurn env req tid conv v userText b"
  from assms(4) have g: "getConversation_error env = None"
    by (auto simp: getConversation_def split: option.splits)
  have l: "getConversation env w' (params_id req) = Inr conv'"
    by (simp add: getConversation_def c assms(5) g conv'_def)
  have ms: "messages conv' = messages conv @ [newUserMessage env tid userText,
               newAiMessage env req tid (reply b)] @ (case ev of None \<Rightarrow> [] | Some x \<Rightarrow> [x])"
    unfolding conv'_def using e
    by (cases "pendingSwitch b") (simp_all add: appendTurn_switch appendTurn_no_switch)
  from assms(6) have old: "\<forall>m \<in> set (messages conv). turnId m \<noteq> Some tid"
    by (auto simp: existingFor_def filter_empty_conv)
  have m: "newUserMessage env tid userText \<in> set (messages conv')"
    by (simp add: ms)
  have t: "turnId (newUserMessage env tid userText) = Some tid"
    by (simp add: newUserMessage_def)
  have f1: "find (\<lambda>m. turnId m = Some tid \<and> role m = js ''user'') (messages conv') = u"
    using old by (simp add: ms find_append_none u newUserMessage_def)
  have f2: "find (\<lambda>m. turnId m = Some tid \<and> role m = js ''assistant'') (messages conv') = a"
    using old by (simp add: ms find_append_none a newUserMessage_def newAiMessage_def)
  have f3: "find (\<lambda>m. turnId m = Some tid \<and> role m = js ''system''
                        \<and> mtype m = Some (js ''voiceSwitch'')) (messages conv') = ev"
    using old e
    by (cases "pendingSwitch b")
      (simp_all add: ms find_append_none newUserMessage_def newAiMessage_def
        newVoiceSwitchEvent_def)
  have "existingFor tid conv' \<noteq> []"
    using m t by (auto simp: existingFor_def filter_empty_conv)
  from known_turn_replayed [OF assms(1-3) l this] show ?thesis
    by (simp add: replay_entries f1 f2 f3)
qed

section \<open>The four outcomes of a switch signal\<close>

lemma resolveSignal_cases:
  \<open>(Some (reply b), Synthesize (ttsElevenLabsVoiceId b) (reply b), pendingSwitch b = None,
      (case pendingSwitch b of None \<Rightarrow> voiceId conv | Some m \<Rightarrow> vid m)) =
             (case sr of
                None \<Rightarrow>
                  (Some t,
                   Synthesize (elevenLabsVoiceId v) t, True, voiceId conv)
              | Some sig \<Rightarrow>
                  (case filter (\<lambda>p. sublist (toLowerCase env (trim (switchVoice sig)))
                                        (toLowerCase env (vname p))
                                   \<or> sublist (toLowerCase env (vname p))
                                        (toLowerCase env (trim (switchVoice sig))))
                          vs of
                     [] \<Rightarrow>
                       (Some (js ''I couldn't find a voice named "'' @ trim (switchVoice sig) @ js ''".''),
                        Synthesize (elevenLabsVoiceId v)
                          (js ''I couldn't find a voice named "'' @ trim (switchVoice sig) @ js ''".''),
                        True, voiceId conv)
                   | [m] \<Rightarrow>
                       if vid m = voiceId conv then
                         (Some (js ''I'm already speaking as '' @ vname m @ js ''.''),
                          Synthesize (elevenLabsVoiceId v) (js ''I'm already speaking as '' @ vname m @ js ''.''),
                          True, voiceId conv)
                       else
                         (Some (if replyText sig = [] then js ''No response'' else replyText sig),
                          Synthesize (elevenLabsVoiceId m)
                            (if replyText sig = [] then js ''No response'' else replyText sig),
                          False, vid m)
                   | m # m' # ms \<Rightarrow>
                       (Some (js ''Did you mean '' @ join (js '' or '') (map vname (m # m' # ms)) @ js ''?''),
                        Synthesize (elevenLabsVoiceId v)
                          (js ''Did you mean '' @ join (js '' or '') (map vname (m # m' # ms)) @ js ''?''),
                        True, voiceId conv)))\<close>
  if "b = resolveSignal env vs v conv t sr"
proof (cases sr)
  case None
  then show ?thesis using that by (simp add: resolveSignal_def)
next
  case (Some sig)
  show ?thesis
  proof (cases "voiceMatches env (trim (switchVoice sig)) vs")
    case Nil
    then show ?thesis
      using that Some by (simp add: resolveSignal_def Let_def flip: voiceMatches_sublist)
  next
    case (Cons m ms)
    note c1 = Cons
    show ?thesis
    proof (cases ms)
      case Nil
      then show ?thesis
        using that Some c1
        by (simp add: resolveSignal_def Let_def orNoResponse_def flip: voiceMatches_sublist)
    next
      case (Cons m' ms')
      then show ?thesis
        using that Some c1
        by (simp add: resolveSignal_def Let_def flip: voiceMatches_sublist)
    qed
  qed
qed

text \<open>
  C4, as amended. Let a fresh turn end with status 200 and its entries, \<open>v\<close> being the active
  persona. Without a signal in the reply the trimmed reply is spoken with the voice handle of
  \<open>v\<close>. With a signal, the candidate is the name of the directive with the white space at
  its ends removed (the white space of \<open>trim\<close>), and the match set is every registered
  persona whose name contains the candidate or is contained in it, both put through the
  \<open>toLowerCase\<close> of the runtime, whatever this function is. No match: the assistant entry and
  the synthesis carry the not-found message. Two or more: the question listing the matched
  names joined by \<open>or\<close>. One match that is the active persona: the already-speaking message.
  In these three cases the voice handle is that of \<open>v\<close>, no event is returned and the active
  voice of the saved conversation is unchanged. One match other than the active persona: the
  assistant entry and the synthesis carry the reply text of the signal, or \<open>No response\<close>
  when that text is empty; the voice handle is that of the match, which becomes the active
  voice of the saved conversation, and an event of subtype \<open>switch\<close> is appended after the
  user entry and the assistant entry.
\<close>

theorem switch_resolution:
  assumes "body_turnId req = Some tid"
    and "getConversation env w (params_id req) = Inr conv"
    and "existingFor tid conv = []"
    and "postTurn env req w = (Response 200 (TurnBody u a ev), w')"
  shows \<open>\<exists>v userText aiText um am c'.
           find (\<lambda>v. vid v = voiceId conv) (voices w) = Some v
         \<and> chat env (llmMessages v conv userText) = Inr aiText
         \<and> u = Some um \<and> a = Some am \<and> conversations w' (cid conv) = Some c'
         \<and> messages c' = messages conv @ [um, am] @ (case ev of None \<Rightarrow> [] | Some e \<Rightarrow> [e])
         \<and> map_option subtype ev = (if ev = None then None else Some (Some (js ''switch'')))
         \<and> (content am, last (calls w'), ev = None, voiceId c') =
             (case extractSwitchVoiceSignal (parse env) (trimmedAiText aiText) of
                None \<Rightarrow>
                  (Some (trimmedAiText aiText),
                   Synthesize (elevenLabsVoiceId v) (trimmedAiText aiText), True, voiceId conv)
              | Some sig \<Rightarrow>
                  (case filter (\<lambda>p. sublist (toLowerCase env (trim (switchVoice sig)))
                                        (toLowerCase env (vname p))
                                   \<or> sublist (toLowerCase env (vname p))
                                        (toLowerCase env (trim (switchVoice sig))))
                          (voices w) of
                     [] \<Rightarrow>
                       (Some (js ''I couldn't find a voice named "'' @ trim (switchVoice sig) @ js ''".''),
                        Synthesize (elevenLabsVoiceId v)
                          (js ''I couldn't find a voice named "'' @ trim (switchVoice sig) @ js ''".''),
                        True, voiceId conv)
                   | [m] \<Rightarrow>
                       if vid m = voiceId conv then
                         (Some (js ''I'm already speaking as '' @ vname m @ js ''.''),
                          Synthesize (elevenLabsVoiceId v) (js ''I'm already speaking as '' @ vname m @ js ''.''),
                          True, voiceId conv)
                       else
                         (Some (if replyText sig = [] then js ''No response'' else replyText sig),
                          Synthesize (elevenLabsVoiceId m)
                            (if replyText sig = [] then js ''No response'' else replyText sig),
                          False, vid m)
                   | m # m' # ms \<Rightarrow>
                       (Some (js ''Did you mean '' @ join (js '' or '') (map vname (m # m' # ms)) @ js ''?''),
                        Synthesize (elevenLabsVoiceId v)
                          (js ''Did you mean '' @ join (js '' or '') (map vname (m # m' # ms)) @ js ''?''),
                        True, voiceId conv)))\<close>
proof -
  from turn_done [OF assms]
  obtain v userText aiText and w1 :: world and b where
    v: "find (\<lambda>v. vid v = voiceId conv) (voices w) = Some v"
    and ch: "chat env (llmMessages v conv userText) = Inr aiText"
    and b: "b = resolveSignal env (voices w) v conv (trimmedAiText aiText)
                  (extractSwitchVoiceSignal (parse env) (trimmedAiText aiText))"
    and u: "u = Some (newUserMessage env tid userText)"
    and a: "a = Some (newAiMessage env req tid (reply b))"
    and e: "ev = map_option (newVoiceSwitchEvent env tid conv v) (pendingSwitch b)"
    and cl: "calls w' = calls w1 @ [Chat (llmMessages v conv userText),
                                   Synthesize (ttsElevenLabsVoiceId b) (reply b)]"
    and c: "conversations w' = (conversations w)(cid conv \<mapsto> appendTurn env req tid conv v userText b)"
    by (rule tryPipeline_done)
  have l: "last (calls w') = Synthesize (ttsElevenLabsVoiceId b) (reply b)"
    by (simp add: cl)
  have ms: "messages (appendTurn env req tid conv v userText b)
              = messages conv @ [newUserMessage env tid userText, newAiMessage env req tid (reply b)]
                @ (case ev of None \<Rightarrow> [] | Some e \<Rightarrow> [e])"
    using e by (cases "pendingSwitch b") (simp_all add: appendTurn_switch appendTurn_no_switch)
  have st: "map_option subtype ev = (if ev = None then None else Some (Some (js ''switch'')))"
    using e by (cases "pendingSwitch b") (simp_all add: newVoiceSwitchEvent_def)
  have vi: "voiceId (appendTurn env req tid conv v userText b)
              = (case pendingSwitch b of None \<Rightarrow> voiceId conv | Some m \<Rightarrow> vid m)"
    by (cases "pendingSwitch b") (simp_all add: appendTurn_switch appendTurn_no_switch)
  have ca: "content (newAiMessage env req tid (reply b)) = Some (reply b)"
    by (simp add: newAiMessage_def)
  have en: "(ev = None) = (pendingSwitch b = None)"
    using e by simp
  have big: "(content (newAiMessage env req tid (reply b)), last (calls w'), ev = None,
              voiceId (appendTurn env req tid conv v userText b))
           = (Some (reply b), Synthesize (ttsElevenLabsVoiceId b) (reply b), pendingSwitch b = None,
              (case pendingSwitch b of None \<Rightarrow> voiceId conv | Some m \<Rightarrow> vid m))"
    by (simp only: ca l en vi)
  have c': "conversations w' (cid conv) = Some (appendTurn env req tid conv v userText b)"
    by (simp add: c)
  show ?thesis
    apply (rule exI [of _ v], rule exI [of _ userText], rule exI [of _ aiText])
    apply (rule exI [of _ "newUserMessage env tid userText"])
    apply (rule exI [of _ "newAiMessage env req tid (reply b)"])
    apply (rule exI [of _ "appendTurn env req tid conv v userText b"])
    apply (intro conjI)
           apply (rule v)
          apply (rule ch)
         apply (rule u)
        apply (rule a)
       apply (rule c')
      apply (rule ms)
     apply (rule st)
    apply (simp only: big resolveSignal_cases [OF b])
    done
qed

lemma world0_fields: "voices world0 = [ada, didi]"
  by (simp add: world0_def)

lemma conv1_fields: "cid conv1 = (js ''c1'')" "voiceId conv1 = (js ''v-ada'')" "messages conv1 = []"
  by (simp_all add: conv1_def)

theorem switch_resolution_witness:
  "last (calls (snd (postTurn env0 audioRequest world0))) = Synthesize (js ''el-didi'') (js ''Hello there.'')
   \<and> map_option voiceId (conversations (snd (postTurn env0 audioRequest world0)) (js ''c1''))
       = Some (js ''v-didi'')"
proof -
  have t: "body_turnId audioRequest = Some (js ''t1'')"
    by (simp add: audioRequest_def)
  from switch_resolution [OF t sample_loaded sample_fresh sample_turn]
  show ?thesis
    by (auto simp: env0_fields world0_fields conv1_fields trimmedAiText_def orNoResponse_def
          sample_trim sample_signal sample_trim_name sample_matches [unfolded voiceMatches_sublist env0_fields]
          didi_fields ada_fields simp del: filter.simps)
qed

lemma bare_signal:
  \<open>extractSwitchVoiceSignal json_parse (js ''{"switchVoice":"Didi"}'')
     = Some \<lparr>switchVoice = js ''Didi'', replyText = []\<rparr>\<close>
  by code_simp

lemma bare_trim: \<open>trim (js ''{"switchVoice":"Didi"}'') = js ''{"switchVoice":"Didi"}''\<close>
  by code_simp

lemma blank_signal:
  \<open>extractSwitchVoiceSignal json_parse (js ''{"switchVoice":" "}'')
     = Some \<lparr>switchVoice = js '' '', replyText = []\<rparr>\<close>
  by code_simp

lemma blank_trim: \<open>trim (js ''{"switchVoice":" "}'') = js ''{"switchVoice":" "}''\<close>
  by code_simp

lemma blank_trim_name: "trim (js '' '') = []"
  by code_simp

text \<open>The name of a directive written with U+00E9, the small e with acute, matches the
  voice whose name is written with U+00C9.\<close>

lemma accented_matches: "voiceMatches env0 (0xE9 # js ''mile'') [ada, emile] = [emile]"
  by code_simp

lemma blank_matches: "voiceMatches env0 [] [ada, didi] = [ada, didi]"
  by code_simp

lemma blank_spec_matches: "spec_voiceMatches env0 (js '' '') [ada, didi] = []"
  by code_simp

lemma bare_spec_matches: "spec_voiceMatches env0 (js ''Didi'') [ada, didi] = [didi]"
  by code_simp

text \<open>
  C4 as stated fails in two places. A reply that is the directive alone has an empty stripped
  reply text; with the single match \<open>Didi\<close>, not the active persona, the assistant entry is
  \<open>No response\<close> and not the empty text. A directive whose name is one space matches no
  persona in the wording of the specification; the route trims the name to the empty text,
  which every name contains, and asks \<open>Did you mean Ada or Didi?\<close>.
\<close>

theorem switch_resolution_counterexample:
  \<open>extractSwitchVoiceSignal json_parse (js ''{"switchVoice":"Didi"}'')
     = Some \<lparr>switchVoice = js ''Didi'', replyText = []\<rparr>
   \<and> spec_voiceMatches envBare (js ''Didi'') (voices world0) = [didi]
   \<and> vid didi \<noteq> voiceId conv1
   \<and> fst (postTurn envBare audioRequest world0)
       = Response 200
           (TurnBody (Some (newUserMessage envBare (js ''t1'') (js ''Hello how are you doing today friend'')))
              (Some (newAiMessage envBare audioRequest (js ''t1'') (js ''No response'')))
              (Some (newVoiceSwitchEvent envBare (js ''t1'') conv1 ada didi)))
   \<and> extractSwitchVoiceSignal json_parse (js ''{"switchVoice":" "}'')
       = Some \<lparr>switchVoice = js '' '', replyText = []\<rparr>
   \<and> spec_voiceMatches envBlank (js '' '') (voices world0) = []
   \<and> fst (postTurn envBlank audioRequest world0)
       = Response 200
           (TurnBody (Some (newUserMessage envBlank (js ''t1'') (js ''Hello how are you doing today friend'')))
              (Some (newAiMessage envBlank audioRequest (js ''t1'') (js ''Did you mean Ada or Didi?'')))
              None)\<close>
proof (intro conjI)
  show \<open>fst (postTurn envBare audioRequest world0)
       = Response 200
           (TurnBody (Some (newUserMessage envBare (js ''t1'') (js ''Hello how are you doing today friend'')))
              (Some (newAiMessage envBare audioRequest (js ''t1'') (js ''No response'')))
              (Some (newVoiceSwitchEvent envBare (js ''t1'') conv1 ada didi)))\<close>
    by (simp add: sample_defs envBare_fields bare_signal bare_trim)
  show \<open>fst (postTurn envBlank audioRequest world0)
       = Response 200
           (TurnBody (Some (newUserMessage envBlank (js ''t1'') (js ''Hello how are you doing today friend'')))
              (Some (newAiMessage envBlank audioRequest (js ''t1'') (js ''Did you mean Ada or Didi?'')))
              None)\<close>
    by (simp add: sample_defs envBlank_fields blank_signal blank_trim blank_trim_name blank_matches)
qed (simp_all add: bare_signal blank_signal world0_def blank_spec_matches bare_spec_matches
      didi_fields conv1_def)

section \<open>Recovery of a conversation whose voice is gone\<close>

text \<open>
  C6, as amended. Let \<open>GET /:id\<close> load a conversation whose active voice id no registered
  voice has. With an empty registry the conversation is answered as it is and nothing is
  changed. With a registry \<open>v0 # vs\<close>, and when the save succeeds, the route answers and
  stores the conversation with \<open>v0\<close> as its active voice, one more entry and the new update
  time, and logs the recovery; the entry is a voice switch event of subtype \<open>recovery\<close>
  with no turn id, the old voice id and the name \<open>Unknown\<close> as its source, and the id and the
  name of \<open>v0\<close> as its target. When the save fails the route answers that error and nothing
  is changed. The turn route does not recover: a fresh valid turn on this conversation is
  answered 404 \<open>Voice not found\<close> and nothing is changed.
\<close>

theorem voice_recovery:
  assumes "getConversation env w i = Inr conv"
    and "getVoices_error env = None"
    and "find (\<lambda>v. vid v = voiceId conv) (voices w) = None"
  shows "(case voices w of
            [] \<Rightarrow> getConversationRoute env i w = (Response 200 (ConversationBody conv), w)
          | v0 # vs \<Rightarrow>
              (case saveConversation_error env of
                 Some e \<Rightarrow> getConversationRoute env i w = (failedToGet e, w)
               | None \<Rightarrow>
                   getConversationRoute env i w =
                     (Response 200
                        (ConversationBody
                           (conv\<lparr>voiceId := vid v0,
                                 messages := messages conv @
                                   [\<lparr>mid = uuidv4 env 0, turnId = None, role = js ''system'',
                                     mtype = Some (js ''voiceSwitch''), subtype = Some (js ''recovery''),
                                     content = None, audioUrl = None,
                                     fromVoiceId = Some (voiceId conv),
                                     fromVoiceName = Some (js ''Unknown''),
                                     toVoiceId = Some (vid v0), toVoiceName = Some (vname v0),
                                     timestamp = now env 0\<rparr>],
                                 updatedAt := now env 1\<rparr>)),
                      w\<lparr>conversations := (conversations w)
                           (cid conv \<mapsto>
                              conv\<lparr>voiceId := vid v0,
                                   messages := messages conv @
                                     [\<lparr>mid = uuidv4 env 0, turnId = None, role = js ''system'',
                                       mtype = Some (js ''voiceSwitch''), subtype = Some (js ''recovery''),
                                       content = None, audioUrl = None,
                                       fromVoiceId = Some (voiceId conv),
                                       fromVoiceName = Some (js ''Unknown''),
                                       toVoiceId = Some (vid v0), toVoiceName = Some (vname v0),
                                       timestamp = now env 0\<rparr>],
                                   updatedAt := now env 1\<rparr>),
                        console := console w @ [LogVoiceRecovery (vname v0) i]\<rparr>)))
       \<and> (\<forall>req tid. params_id req = i \<and> body_turnId req = Some tid \<and> tid \<noteq> []
              \<and> (req_file req \<noteq> None \<or> hasText req) \<and> existingFor tid conv = []
              \<longrightarrow> postTurn env req w = (Response 404 (ErrorBody (js ''Voice not found'')), w))"
  using assms
  by (auto simp: getConversationRoute_def getVoices_def saveConversation_def Let_def
        newRecoveryEvent_def postTurn_def turnTask_def tryPipeline_def
        split: list.splits option.splits)

theorem voice_recovery_witness:
  "fst (getConversationRoute env0 (js ''c1'') worldAdaDeleted)
     = Response 200 (ConversationBody
         (conv1\<lparr>voiceId := js ''v-didi'', messages := [newRecoveryEvent env0 conv1 didi],
                updatedAt := js ''time-1''\<rparr>))
   \<and> conversations (snd (getConversationRoute env0 (js ''c1'') worldAdaDeleted)) (js ''c1'')
     = Some (conv1\<lparr>voiceId := js ''v-didi'', messages := [newRecoveryEvent env0 conv1 didi],
                updatedAt := js ''time-1''\<rparr>)
   \<and> console (snd (getConversationRoute env0 (js ''c1'') worldAdaDeleted))
     = [LogVoiceRecovery (js ''Didi'') (js ''c1'')]"
proof -
  have c: "getConversation env0 worldAdaDeleted (js ''c1'') = Inr conv1"
    by (simp add: getConversation_def worldAdaDeleted_def world0_def env0_def)
  have e: "getVoices_error env0 = None"
    by (simp add: env0_def)
  have f: "find (\<lambda>v. vid v = voiceId conv1) (voices worldAdaDeleted) = None"
    by (simp add: worldAdaDeleted_def conv1_def didi_fields)
  show ?thesis
    using voice_recovery [OF c e f]
    by (simp add: worldAdaDeleted_def env0_def world0_def conv1_def didi_fields
          newRecoveryEvent_def times_def)
qed

text \<open>
  C6 as stated fails when the registry is empty: the conversation is read, no recovery runs,
  and the stored record goes on referencing a voice that no registered voice has.
\<close>

theorem voice_recovery_counterexample:
  "find (\<lambda>v. vid v = voiceId conv1) (voices worldNoVoices) = None
   \<and> getConversationRoute env0 (js ''c1'') worldNoVoices
       = (Response 200 (ConversationBody conv1), worldNoVoices)
   \<and> conversations worldNoVoices (js ''c1'') = Some conv1"
  by (simp add: getConversationRoute_def getConversation_def getVoices_def worldNoVoices_def
        world0_def env0_def)

section \<open>What a match of a pattern says about the text\<close>

lemma length_FENCE [simp]: "length FENCE = 3"
  by (simp add: FENCE_def)

lemma rx_match_sound:
  "rx_match rs s pos cap = Some (e, c) \<Longrightarrow>
     \<exists>ws. list_all2 piece_ok rs ws \<and> prefix (concat ws) s
        \<and> e = pos + length (concat ws) \<and> c = caps rs ws pos cap"
proof (induction rs s pos cap arbitrary: e c rule: rx_match.induct)
  case (1 s pos cap)
  then show ?case by (intro exI [of _ "[]"]) simp
next
  case (2 l rs s pos cap)
  from "2.prems" have p: "prefix l s"
    and m: "rx_match rs (drop (length l) s) (pos + length l) cap = Some (e, c)"
    by (auto split: if_splits)
  from "2.IH" [OF p m] obtain ws where ws: "list_all2 piece_ok rs ws"
    "prefix (concat ws) (drop (length l) s)" "e = pos + length l + length (concat ws)"
    "c = caps rs ws (pos + length l) cap"
    by auto
  from p ws(2) have "prefix (l @ concat ws) s"
    by (metis append_take_drop_id prefix_def same_prefix_prefix take_is_prefix prefix_order.eq_iff
        append_eq_conv_conj)
  with ws show ?case
    by (intro exI [of _ "l # ws"]) simp
next
  case (3 l rs s pos cap)
  show ?case
  proof (cases "prefix l s \<and> rx_match rs (drop (length l) s) (pos + length l) cap \<noteq> None")
    case True
    with "3.prems" have p: "prefix l s"
      and m: "rx_match rs (drop (length l) s) (pos + length l) cap = Some (e, c)"
      by (auto split: if_splits option.splits)
    from "3.IH"(1) [OF p m] obtain ws where ws: "list_all2 piece_ok rs ws"
      "prefix (concat ws) (drop (length l) s)" "e = pos + length l + length (concat ws)"
      "c = caps rs ws (pos + length l) cap"
      by auto
    from p ws(2) have "prefix (l @ concat ws) s"
      by (metis append_eq_conv_conj prefix_def same_prefix_prefix)
    with ws show ?thesis
      by (intro exI [of _ "l # ws"]) simp
  next
    case False
    with "3.prems" have n: "(if prefix l s then rx_match rs (drop (length l) s) (pos + length l) cap else None) = None"
      and m: "rx_match rs s pos cap = Some (e, c)"
      by (auto split: if_splits option.splits)
    from "3.IH"(2) [OF n m] obtain ws where ws: "list_all2 piece_ok rs ws"
      "prefix (concat ws) s" "e = pos + length (concat ws)" "c = caps rs ws pos cap"
      by auto
    then show ?thesis
      by (intro exI [of _ "[] # ws"]) simp
  qed
next
  case (4 p rs pos cap)
  from "4.prems" have m: "rx_match rs [] pos cap = Some (e, c)"
    by simp
  from "4.IH" [OF m] obtain ws where ws: "list_all2 piece_ok rs ws"
      "prefix (concat ws) []" "e = pos + length (concat ws)" "c = caps rs ws pos cap"
    by auto
  then show ?case
    by (intro exI [of _ "[] # ws"]) simp
next
  case (5 p rs ch cs pos cap)
  show ?case
  proof (cases "p ch \<and> rx_match (Star p # rs) cs (Suc pos) cap \<noteq> None")
    case True
    with "5.prems" have p: "p ch"
      and m: "rx_match (Star p # rs) cs (Suc pos) cap = Some (e, c)"
      by (auto split: if_splits option.splits)
    from "5.IH"(1) [OF p m] obtain ws where ws: "list_all2 piece_ok (Star p # rs) ws"
      "prefix (concat ws) cs" "e = Suc pos + length (concat ws)"
      "c = caps (Star p # rs) ws (Suc pos) cap"
      by auto
    from ws(1) obtain w ws' where w: "ws = w # ws'" "list_all p w" "list_all2 piece_ok rs ws'"
      by (auto simp: list_all2_Cons1)
    with ws show ?thesis
      by (intro exI [of _ "(ch # w) # ws'"]) (simp add: p)
  next
    case False
    with "5.prems" have n: "(if p ch then rx_match (Star p # rs) cs (Suc pos) cap else None) = None"
      and m: "rx_match rs (ch # cs) pos cap = Some (e, c)"
      by (auto split: if_splits option.splits)
    from "5.IH"(2) [OF n m] obtain ws where ws: "list_all2 piece_ok rs ws"
      "prefix (concat ws) (ch # cs)" "e = pos + length (concat ws)" "c = caps rs ws pos cap"
      by auto
    then show ?thesis
      by (intro exI [of _ "[] # ws"]) simp
  qed
next
  case (6 rs s pos cap)
  from "6.prems" have m: "rx_match rs s pos (pos, snd cap) = Some (e, c)"
    by simp
  from "6.IH" [OF m] obtain ws where ws: "list_all2 piece_ok rs ws"
      "prefix (concat ws) s" "e = pos + length (concat ws)" "c = caps rs ws pos (pos, snd cap)"
    by auto
  then show ?case
    by (intro exI [of _ "[] # ws"]) simp
next
  case (7 rs s pos cap)
  from "7.prems" have m: "rx_match rs s pos (fst cap, pos) = Some (e, c)"
    by simp
  from "7.IH" [OF m] obtain ws where ws: "list_all2 piece_ok rs ws"
      "prefix (concat ws) s" "e = pos + length (concat ws)" "c = caps rs ws pos (fst cap, pos)"
    by auto
  then show ?case
    by (intro exI [of _ "[] # ws"]) simp
qed

lemma prefix_drop_length: "prefix p s \<Longrightarrow> s = p @ drop (length p) s"
  by (auto simp: prefix_def)

lemma isSpace_newline: "isSpace 0x0A"
  by (simp add: isSpace_def)

lemma first_line_shape:
  assumes "rx_match_start RX_FIRST_LINE text = Some (e, a, b)"
  obtains body sp where "text = js ''{'' @ body @ js ''}'' @ sp @ drop e text"
    and "list_all notNewline body" and "list_all isSpace sp"
    and "substring a b text = js ''{'' @ body @ (js ''}'')"
proof -
  from rx_match_sound [OF assms [unfolded rx_match_start_def]]
  obtain ws where ws: "list_all2 piece_ok RX_FIRST_LINE ws" and p: "prefix (concat ws) text"
    and e: "e = length (concat ws)" and c: "(a, b) = caps RX_FIRST_LINE ws 0 (0, 0)"
    by auto
  from ws obtain body sp nl where w: "ws = [[], js ''{'', body, js ''}'', [], sp, nl]"
    and b: "list_all notNewline body" and s: "list_all isSpace sp"
    and n: "nl = [0x0A] \<or> nl = []"
    by (auto simp: RX_FIRST_LINE_def list_all2_Cons1)
  from n s have s': "list_all isSpace (sp @ nl)"
    by (auto simp: isSpace_newline)
  from prefix_drop_length [OF p] have t: "text = js ''{'' @ body @ js ''}'' @ (sp @ nl) @ drop e text"
    by (simp add: w e)
  from c have ab: "a = 0" "b = length body + 2"
    by (simp_all add: w RX_FIRST_LINE_def)
  have "substring a b text = js ''{'' @ body @ (js ''}'')"
    unfolding ab substring_def by (subst t) simp
  with t b s' show ?thesis
    by (intro that [of body "sp @ nl"])
qed

lemma fenced_shape:
  assumes "rx_match_start RX_FENCED text = Some (e, a, b)"
  obtains j sp1 body sp2 sp3 where
    "text = FENCE @ j @ sp1 @ js ''{'' @ body @ js ''}'' @ sp2
            @ FENCE @ sp3 @ drop e text"
    and "j = js ''json'' \<or> j = []"
    and "list_all isSpace sp1" and "sp1 \<noteq> []" and "last sp1 = 0x0A"
    and "list_all notNewline body"
    and "list_all isSpace sp2" and "sp2 \<noteq> []" and "last sp2 = 0x0A"
    and "list_all isSpace sp3"
    and "substring a b text = js ''{'' @ body @ (js ''}'')"
proof -
  from rx_match_sound [OF assms [unfolded rx_match_start_def]]
  obtain ws where ws: "list_all2 piece_ok RX_FENCED ws" and p: "prefix (concat ws) text"
    and e: "e = length (concat ws)" and c: "(a, b) = caps RX_FENCED ws 0 (0, 0)"
    by auto
  from ws obtain j s1 body s2 s3 nl where
    w: "ws = [FENCE, j, s1, [0x0A], [], js ''{'', body, js ''}'', [],
              s2, [0x0A], FENCE, s3, nl]"
    and j: "j = js ''json'' \<or> j = []"
    and b: "list_all notNewline body" and s: "list_all isSpace s1" "list_all isSpace s2"
      "list_all isSpace s3"
    and n: "nl = [0x0A] \<or> nl = []"
    by (auto simp: RX_FENCED_def list_all2_Cons1)
  from n s have s': "list_all isSpace (s3 @ nl)" "list_all isSpace (s1 @ [0x0A])"
    "list_all isSpace (s2 @ [0x0A])"
    by (auto simp: isSpace_newline)
  from prefix_drop_length [OF p]
  have t: "text = FENCE @ j @ (s1 @ [0x0A]) @ js ''{'' @ body @ js ''}''
                  @ (s2 @ [0x0A]) @ FENCE @ (s3 @ nl) @ drop e text"
    by (simp add: w e)
  from c have ab: "a = 3 + length j + length s1 + 1" "b = a + length body + 2"
    by (simp_all add: w RX_FENCED_def)
  define pre where "pre = FENCE @ j @ (s1 @ [0x0A])"
  define post where
    "post = (s2 @ [0x0A]) @ FENCE @ (s3 @ nl) @ drop e text"
  have t': "text = pre @ (js ''{'' @ body @ js ''}'') @ post"
    unfolding pre_def post_def by (subst t) simp
  have ab': "a = length pre" "b = length pre + Suc (Suc (length body))"
    by (simp_all add: ab pre_def)
  have "take (b - a) (drop a text) = js ''{'' @ body @ (js ''}'')"
    unfolding ab' by (subst t') simp
  then have "substring a b text = js ''{'' @ body @ (js ''}'')"
    by (simp add: substring_def)
  have t2: "text = FENCE @ j @ (s1 @ [0x0A]) @ js ''{'' @ body @ js ''}''
                  @ (s2 @ [0x0A]) @ FENCE @ (s3 @ nl) @ drop e text"
    by (fact t)
  from j b s' \<open>substring a b text = js ''{'' @ body @ js ''}''\<close> show ?thesis
    by (intro that [of j "s1 @ [0x0A]" body "s2 @ [0x0A]" "s3 @ nl", OF t2]) simp_all
qed

lemma rx_search_sound:
  "rx_search rs s pos = Some (a, e) \<Longrightarrow>
     \<exists>k c. k \<le> length s \<and> a = pos + k \<and> rx_match rs (drop k s) (pos + k) (0, 0) = Some (e, c)"
proof (induction rs s pos rule: rx_search.induct)
  case (1 rs pos)
  then show ?case by (auto split: option.splits)
next
  case (2 rs c cs pos)
  show ?case
  proof (cases "rx_match rs (c # cs) pos (0, 0)")
    case None
    with "2.prems" have "rx_search rs cs (Suc pos) = Some (a, e)"
      by simp
    from "2.IH" [OF None this] obtain k c' where "k \<le> length cs" "a = Suc pos + k"
      "rx_match rs (drop k cs) (Suc pos + k) (0, 0) = Some (e, c')"
      by auto
    then show ?thesis
      by (intro exI [of _ "Suc k"] exI [of _ c']) simp
  next
    case (Some m)
    with "2.prems" show ?thesis
      by (intro exI [of _ 0] exI [of _ "snd m"]) (auto split: prod.splits)
  qed
qed

lemma line_shape:
  assumes "rx_search RX_LINE l 0 = Some (a, b)"
  obtains p body q where "l = p @ js ''{'' @ body @ js ''}'' @ q" and "list_all notNewline body"
    and "substring a b l = js ''{'' @ body @ (js ''}'')"
proof -
  from rx_search_sound [OF assms] obtain k c where k: "k \<le> length l" "a = k"
    and m: "rx_match RX_LINE (drop k l) k (0, 0) = Some (b, c)"
    by auto
  from rx_match_sound [OF m]
  obtain ws where ws: "list_all2 piece_ok RX_LINE ws" and p: "prefix (concat ws) (drop k l)"
    and e: "b = k + length (concat ws)"
    by auto
  from ws obtain body where w: "ws = [js ''{'', body, js ''}'']" and b: "list_all notNewline body"
    by (auto simp: RX_LINE_def list_all2_Cons1)
  from prefix_drop_length [OF p]
  have d: "drop k l = js ''{'' @ body @ js ''}'' @ drop (length body + 2) (drop k l)"
    by (simp add: w)
  have t: "l = take k l @ js ''{'' @ body @ js ''}'' @ drop (length body + 2) (drop k l)"
    by (subst append_take_drop_id [of k l, symmetric], subst d) simp
  have "substring a b l = js ''{'' @ body @ (js ''}'')"
    unfolding substring_def k e w by (subst d) simp
  with t b show ?thesis
    by (intro that [of "take k l" body "drop (length body + 2) (drop k l)"])
qed

declare scanLines.simps [simp del]

lemma scanLines_step:
  "i < length lines \<Longrightarrow>
   scanLines pr lines i =
     (case lineSwitchVoice pr (lines ! i) of
        None \<Rightarrow> scanLines pr lines (Suc i)
      | Some name \<Rightarrow>
          Some \<lparr>switchVoice = name,
                replyText = trim (join [0x0A] (take i lines @ drop (Suc i) lines))\<rparr>)"
  by (subst scanLines.simps) (simp add: lineSwitchVoice_def split: option.splits)

lemma scanLines_end: "\<not> i < length lines \<Longrightarrow> scanLines pr lines i = None"
  by (subst scanLines.simps) simp

lemma scanLines_None:
  "scanLines pr lines i = None \<longleftrightarrow>
     (\<forall>j. i \<le> j \<and> j < length lines \<longrightarrow> lineSwitchVoice pr (lines ! j) = None)"
proof (induction "length lines - i" arbitrary: i)
  case 0
  then show ?case by (auto simp: scanLines_end)
next
  case (Suc n)
  then have l: "i < length lines" by simp
  from Suc.hyps(2) have n: "n = length lines - Suc i" by simp
  show ?case
  proof (cases "lineSwitchVoice pr (lines ! i)")
    case None
    have "(\<forall>j. i \<le> j \<and> j < length lines \<longrightarrow> lineSwitchVoice pr (lines ! j) = None)
        \<longleftrightarrow> (\<forall>j. Suc i \<le> j \<and> j < length lines \<longrightarrow> lineSwitchVoice pr (lines ! j) = None)"
    proof
      assume a: "\<forall>j. i \<le> j \<and> j < length lines \<longrightarrow> lineSwitchVoice pr (lines ! j) = None"
      show "\<forall>j. Suc i \<le> j \<and> j < length lines \<longrightarrow> lineSwitchVoice pr (lines ! j) = None"
        using a by simp
    next
      assume a: "\<forall>j. Suc i \<le> j \<and> j < length lines \<longrightarrow> lineSwitchVoice pr (lines ! j) = None"
      show "\<forall>j. i \<le> j \<and> j < length lines \<longrightarrow> lineSwitchVoice pr (lines ! j) = None"
      proof (intro allI impI)
        fix j assume "i \<le> j \<and> j < length lines"
        then show "lineSwitchVoice pr (lines ! j) = None"
          using a None by (cases "j = i") simp_all
      qed
    qed
    with Suc.hyps(1) [OF n] None l show ?thesis
      by (simp add: scanLines_step)
  next
    case (Some name)
    with l show ?thesis
      by (auto simp: scanLines_step)
  qed
qed

lemma parsedSwitchVoice_iff:
  "parsedSwitchVoice pr fragment = Some name \<longleftrightarrow>
     name \<noteq> [] \<and> (\<exists>kvs. pr fragment = Some (JObject kvs)
        \<and> map_of (rev kvs) (js ''switchVoice'') = Some (JString name))"
  by (auto simp: parsedSwitchVoice_def split: option.splits json.splits if_splits)

section \<open>What the patterns match\<close>

lemma js_braces: "js ''{'' = [0x7B]" "js ''}'' = [0x7D]"
  by (simp_all add: js_Cons)

lemma prefix_takeWhile: "prefix y s \<Longrightarrow> list_all P y \<Longrightarrow> prefix y (takeWhile P s)"
  by (induction s arbitrary: y) (auto simp: prefix_Cons)

lemma not_after_run:
  assumes "c \<notin> set (takeWhile P rest)" and "P c" and "prefix x rest" and "list_all P x"
  shows "\<not> prefix [c] (drop (length x) rest)"
proof
  assume "prefix [c] (drop (length x) rest)"
  then obtain r where r: "drop (length x) rest = c # r"
    by (auto simp: prefix_def)
  from assms(3) have "rest = x @ drop (length x) rest"
    by (rule prefix_drop_length)
  with r have "prefix (x @ [c]) rest"
    by (metis append.assoc append_Cons append_Nil prefixI)
  moreover from assms(2,4) have "list_all P (x @ [c])"
    by simp
  ultimately have "prefix (x @ [c]) (takeWhile P rest)"
    by (rule prefix_takeWhile)
  then have "c \<in> set (takeWhile P rest)"
    by (auto simp: prefix_def)
  with assms(1) show False
    by simp
qed

text \<open>A star takes the longest run after which the rest of the pattern matches.\<close>

lemma rx_match_Star_None:
  assumes "\<And>x. prefix x s \<Longrightarrow> list_all p x
             \<Longrightarrow> rx_match rs (drop (length x) s) (pos + length x) cap = None"
  shows "rx_match (Star p # rs) s pos cap = None"
  using assms
proof (induction s arbitrary: pos)
  case Nil
  from Nil [of "[]"] show ?case
    by simp
next
  case (Cons c cs)
  from Cons.prems [of "[]"] have a: "rx_match rs (c # cs) pos cap = None"
    by simp
  have b: "rx_match (Star p # rs) cs (Suc pos) cap = None" if pc: "p c"
  proof (rule Cons.IH)
    fix x assume "prefix x cs" and "list_all p x"
    with pc Cons.prems [of "c # x"]
    show "rx_match rs (drop (length x) cs) (Suc pos + length x) cap = None"
      by simp
  qed
  from a b show ?case
    by simp
qed

lemma rx_match_Star_Some:
  assumes "list_all p w"
    and "rx_match rs s' (pos + length w) cap = Some m"
    and "\<And>x. x \<noteq> [] \<Longrightarrow> prefix x s' \<Longrightarrow> list_all p x
           \<Longrightarrow> rx_match rs (drop (length x) s') (pos + length w + length x) cap = None"
  shows "rx_match (Star p # rs) (w @ s') pos cap = Some m"
  using assms
proof (induction w arbitrary: pos)
  case Nil
  show ?case
  proof (cases s')
    case Nil
    with Nil.prems(2) show ?thesis
      by simp
  next
    case (Cons c cs)
    have "rx_match (Star p # rs) cs (Suc pos) cap = None" if pc: "p c"
    proof (rule rx_match_Star_None)
      fix x assume "prefix x cs" and "list_all p x"
      with pc Nil.prems(3) [of "c # x"] Cons
      show "rx_match rs (drop (length x) cs) (Suc pos + length x) cap = None"
        by simp
    qed
    with Nil.prems(2) Cons show ?thesis
      by simp
  qed
next
  case (Cons c w)
  from Cons.prems(1) have pc: "p c" and pw: "list_all p w"
    by simp_all
  have "rx_match (Star p # rs) (w @ s') (Suc pos) cap = Some m"
  proof (rule Cons.IH [OF pw])
    from Cons.prems(2) show "rx_match rs s' (Suc pos + length w) cap = Some m"
      by simp
  next
    fix x assume "x \<noteq> []" and "prefix x s'" and "list_all p x"
    with Cons.prems(3) [of x]
    show "rx_match rs (drop (length x) s') (Suc pos + length w + length x) cap = None"
      by simp
  qed
  with pc show ?case
    by simp
qed

text \<open>The end of the first two patterns, \<open>\s*\n?\<close>, takes all the white space there is.\<close>

lemma rx_match_tail:
  "rx_match [Star isSpace, Opt [0x0A]] s pos cap = Some (pos + length (takeWhile isSpace s), cap)"
proof (induction s arbitrary: pos)
  case Nil
  show ?case by simp
next
  case (Cons c cs)
  show ?case
  proof (cases "isSpace c")
    case True
    with Cons show ?thesis by simp
  next
    case False
    with isSpace_newline have "c \<noteq> 0x0A"
      by auto
    with False show ?thesis
      by simp
  qed
qed

text \<open>\<open>[^\n]*\}\<close> runs to the last closing brace of the line.\<close>

lemma rx_match_last_brace:
  assumes "list_all notNewline bdy" and "0x7D \<notin> set (takeWhile notNewline rest)"
    and "rx_match R rest (pos + length bdy + 1) cap = Some m"
  shows "rx_match (Star notNewline # Lit (js ''}'') # R) (bdy @ js ''}'' @ rest) pos cap = Some m"
proof (rule rx_match_Star_Some [OF assms(1)])
  from assms(3) show "rx_match (Lit (js ''}'') # R) (js ''}'' @ rest) (pos + length bdy) cap = Some m"
    by (simp add: js_braces)
next
  fix x assume x: "x \<noteq> []" "prefix x (js ''}'' @ rest)" "list_all notNewline x"
  then obtain y where y: "x = 0x7D # y" "prefix y rest" "list_all notNewline y"
    by (cases x) (auto simp: js_braces)
  have "notNewline 0x7D"
    by (simp add: notNewline_def)
  from not_after_run [OF assms(2) this y(2,3)]
  show "rx_match (Lit (js ''}'') # R) (drop (length x) (js ''}'' @ rest))
          (pos + length bdy + length x) cap = None"
    by (simp add: y(1) js_braces)
qed

lemma rx_match_object:
  assumes "list_all notNewline bdy" and "0x7D \<notin> set (takeWhile notNewline rest)"
    and "rx_match R rest (pos + length bdy + 2) (pos, pos + length bdy + 2) = Some m"
  shows "rx_match (CapOpen # Lit (js ''{'') # Star notNewline # Lit (js ''}'') # CapClose # R)
           (js ''{'' @ bdy @ js ''}'' @ rest) pos cap = Some m"
proof -
  have "rx_match (Star notNewline # Lit (js ''}'') # CapClose # R) (bdy @ js ''}'' @ rest)
          (Suc pos) (pos, snd cap) = Some m"
    by (rule rx_match_last_brace [OF assms(1,2)]) (use assms(3) in simp)
  then show ?thesis
    by (simp add: js_braces)
qed

text \<open>\<open>\s*\n\<close> before a code unit that is not white space takes the white space up to its
  last line feed.\<close>

lemma rx_match_blank_line_end:
  assumes "blankLineEnd sp" and "\<not> isSpace c"
    and "rx_match R (c # r) (pos + length sp) cap = Some m"
  shows "rx_match (Star isSpace # Lit [0x0A] # R) (sp @ c # r) pos cap = Some m"
proof -
  from assms(1) obtain w where sp: "sp = w @ [0x0A]" and w: "list_all isSpace w"
    unfolding blankLineEnd_def by (cases sp rule: rev_cases) auto
  have "rx_match (Star isSpace # Lit [0x0A] # R) (w @ 0x0A # c # r) pos cap = Some m"
  proof (rule rx_match_Star_Some [OF w])
    from assms(3) show "rx_match (Lit [0x0A] # R) (0x0A # c # r) (pos + length w) cap = Some m"
      by (simp add: sp)
  next
    fix x assume x: "x \<noteq> []" "prefix x (0x0A # c # r)" "list_all isSpace x"
    then obtain y where y: "x = 0x0A # y" "prefix y (c # r)" "list_all isSpace y"
      by (cases x) auto
    from y(2,3) assms(2) have "y = []"
      by (cases y) auto
    with assms(2) isSpace_newline have "c \<noteq> 0x0A"
      by auto
    then show "rx_match (Lit [0x0A] # R) (drop (length x) (0x0A # c # r))
            (pos + length w + length x) cap = None"
      by (simp add: y(1) \<open>y = []\<close>)
  qed
  then show ?thesis
    by (simp add: sp)
qed

lemma takeWhile_dropWhile_Nil: "takeWhile P (dropWhile P xs) = []"
  by (induction xs) auto

lemma trim_dropWhile: "trim (dropWhile isSpace s) = trim s"
  by (simp add: trim_def)

lemma not_space_brace: "\<not> isSpace 0x7B" "\<not> isSpace 0x7D" "\<not> isSpace 0x60" "\<not> isSpace 0x6A"
  by (simp_all add: isSpace_def)

lemma takeWhile_blankLineEnd:
  assumes "blankLineEnd sp"
  shows "0x7D \<notin> set (takeWhile notNewline (sp @ s))"
proof -
  from assms obtain w where sp: "sp = w @ [0x0A]" and w: "list_all isSpace w"
    unfolding blankLineEnd_def by (cases sp rule: rev_cases) auto
  have "set (takeWhile notNewline (w @ 0x0A # s)) \<subseteq> set w"
    by (induction w) (auto simp: notNewline_def)
  with w not_space_brace(2) show ?thesis
    by (auto simp: sp list_all_iff)
qed

text \<open>The object at the start of the text.\<close>

lemma first_line_exact:
  assumes "objectAtStart text fragment rest"
  shows "rx_match_start RX_FIRST_LINE text
           = Some (length fragment + length (takeWhile isSpace rest), 0, length fragment)"
proof -
  from assms obtain bdy where f: "fragment = js ''{'' @ bdy @ js ''}''"
    and b: "list_all notNewline bdy" and t: "text = fragment @ rest"
    and n: "0x7D \<notin> set (takeWhile notNewline rest)"
    by (auto simp: objectAtStart_def object_def)
  have "rx_match (CapOpen # Lit (js ''{'') # Star notNewline # Lit (js ''}'') # CapClose
                   # [Star isSpace, Opt [0x0A]])
          (js ''{'' @ bdy @ js ''}'' @ rest) 0 (0, 0)
        = Some (0 + length bdy + 2 + length (takeWhile isSpace rest), (0, 0 + length bdy + 2))"
    by (rule rx_match_object [OF b n]) (simp add: rx_match_tail)
  then show ?thesis
    by (simp add: rx_match_start_def RX_FIRST_LINE_def t f)
qed

lemma atStart_first_line:
  assumes "objectAtStart text fragment rest"
  shows "atStart RX_FIRST_LINE pr text
           = map_option (\<lambda>name. \<lparr>switchVoice = name, replyText = trim rest\<rparr>)
               (parsedSwitchVoice pr fragment)"
proof -
  from assms have t: "text = fragment @ rest"
    by (simp add: objectAtStart_def)
  have s: "substring 0 (length fragment) text = fragment"
    by (simp add: substring_def t)
  have d: "drop (length fragment + length (takeWhile isSpace rest)) text = dropWhile isSpace rest"
    by (simp add: t dropWhile_eq_drop)
  show ?thesis
    by (simp add: atStart_def first_line_exact [OF assms] s d trim_dropWhile split: option.splits)
qed

lemma object_at_start_not_fenced:
  assumes "objectAtStart text fragment rest"
  shows "atStart RX_FENCED pr text = None"
  using assms
  by (auto simp: atStart_def rx_match_start_def RX_FENCED_def FENCE_def objectAtStart_def
        object_def js_braces)

lemma object_at_start_exists:
  assumes "text = js ''{'' @ bdy @ js ''}'' @ r" and "list_all notNewline bdy"
  shows "\<exists>fragment rest. objectAtStart text fragment rest"
proof -
  define s where "s = bdy @ 0x7D # r"
  define line where "line = takeWhile notNewline s"
  have "prefix (bdy @ [0x7D]) s"
    by (simp add: s_def)
  moreover have "list_all notNewline (bdy @ [0x7D])"
    using assms(2) by (simp add: notNewline_def)
  ultimately have "prefix (bdy @ [0x7D]) line"
    unfolding line_def by (rule prefix_takeWhile)
  then have "0x7D \<in> set line"
    by (auto simp: prefix_def)
  from split_list_last [OF this] obtain ys zs where l: "line = ys @ 0x7D # zs"
    and z: "0x7D \<notin> set zs"
    by blast
  have "\<forall>x \<in> set line. notNewline x"
    unfolding line_def by (auto dest: set_takeWhileD)
  with l have ys: "list_all notNewline ys" and zs: "\<forall>x \<in> set zs. notNewline x"
    by (auto simp: list_all_iff)
  have s: "s = ys @ 0x7D # zs @ dropWhile notNewline s"
    using takeWhile_dropWhile_id [of notNewline s] by (simp add: line_def [symmetric] l)
  from zs have "takeWhile notNewline (zs @ dropWhile notNewline s) = zs"
    by (simp add: takeWhile_append2 takeWhile_dropWhile_Nil)
  with z have n: "0x7D \<notin> set (takeWhile notNewline (zs @ dropWhile notNewline s))"
    by simp
  have t: "text = (js ''{'' @ ys @ js ''}'') @ (zs @ dropWhile notNewline s)"
    unfolding assms(1) using s by (simp add: s_def js_braces)
  have "objectAtStart text (js ''{'' @ ys @ js ''}'') (zs @ dropWhile notNewline s)"
    unfolding objectAtStart_def object_def using ys n t by auto
  then show ?thesis
    by blast
qed

lemma atStart_first_line_None:
  assumes "\<And>fragment rest. objectAtStart text fragment rest
             \<Longrightarrow> parsedSwitchVoice pr fragment = None"
  shows "atStart RX_FIRST_LINE pr text = None"
proof (cases "rx_match_start RX_FIRST_LINE text")
  case None
  then show ?thesis
    by (simp add: atStart_def)
next
  case (Some m)
  obtain e a b where m: "m = (e, a, b)"
    by (cases m)
  from Some [unfolded m] obtain bdy sp where "text = js ''{'' @ bdy @ js ''}'' @ sp @ drop e text"
    and "list_all notNewline bdy"
    by (rule first_line_shape)
  from object_at_start_exists [OF this] obtain fragment rest where
    o: "objectAtStart text fragment rest"
    by blast
  from assms [OF o] show ?thesis
    by (simp add: atStart_first_line [OF o])
qed

text \<open>The fenced block.\<close>

lemma fenced_exact:
  assumes "fencedBlock text fragment rest"
  shows "\<exists>e a b. rx_match_start RX_FENCED text = Some (e, a, b)
           \<and> substring a b text = fragment \<and> drop e text = dropWhile isSpace rest"
proof -
  from assms have "object fragment"
    and "\<exists>j sp1 sp2. text = FENCE @ j @ sp1 @ fragment @ sp2 @ FENCE @ rest
           \<and> (j = js ''json'' \<or> j = []) \<and> blankLineEnd sp1 \<and> blankLineEnd sp2"
    by (simp_all add: fencedBlock_def)
  then obtain bdy j sp1 sp2 where f: "fragment = js ''{'' @ bdy @ js ''}''"
    and bd: "list_all notNewline bdy"
    and t: "text = FENCE @ j @ sp1 @ fragment @ sp2 @ FENCE @ rest"
    and j: "j = js ''json'' \<or> j = []" and s1: "blankLineEnd sp1" and s2: "blankLineEnd sp2"
    unfolding object_def by (elim exE conjE)
  define a where "a = 3 + length j + length sp1"
  define b where "b = a + length bdy + 2"
  define e where "e = b + length sp2 + 3 + length (takeWhile isSpace rest)"
  define R5 where "R5 = [Star isSpace, Opt [0x0A :: unit16]]"
  define R4 where "R4 = Star isSpace # Lit [0x0A] # Lit FENCE # R5"
  define R3 where "R3 = CapOpen # Lit (js ''{'') # Star notNewline # Lit (js ''}'') # CapClose # R4"
  define R2 where "R2 = Star isSpace # Lit [0x0A] # R3"
  have m5: "rx_match R5 rest (b + length sp2 + 3) (a, b) = Some (e, a, b)"
    by (simp add: R5_def rx_match_tail e_def)
  have m4: "rx_match R4 (sp2 @ 0x60 # 0x60 # 0x60 # rest) b (a, b) = Some (e, a, b)"
    unfolding R4_def
    by (rule rx_match_blank_line_end [OF s2 not_space_brace(3)])
      (use m5 in \<open>simp add: FENCE_def eval_nat_numeral\<close>)
  have m3: "rx_match R3 (js ''{'' @ bdy @ js ''}'' @ sp2 @ FENCE @ rest) a (0, 0) = Some (e, a, b)"
    unfolding R3_def
    by (rule rx_match_object [OF bd takeWhile_blankLineEnd [OF s2]])
      (use m4 in \<open>simp add: b_def FENCE_def\<close>)
  have m2: "rx_match R2 (sp1 @ 0x7B # bdy @ js ''}'' @ sp2 @ FENCE @ rest) (3 + length j) (0, 0)
              = Some (e, a, b)"
    unfolding R2_def
    by (rule rx_match_blank_line_end [OF s1 not_space_brace(1)])
      (use m3 in \<open>simp add: a_def js_braces add.commute add.left_commute\<close>)
  from s1 obtain c sp1' where c: "sp1 = c # sp1'" "isSpace c"
    unfolding blankLineEnd_def by (cases sp1) auto
  with not_space_brace(4) have cj: "c \<noteq> 0x6A"
    by auto
  have m1: "rx_match (Opt (js ''json'') # R2) (j @ sp1 @ fragment @ sp2 @ FENCE @ rest) 3 (0, 0)
              = Some (e, a, b)"
  proof (cases "j = []")
    case True
    with m2 cj show ?thesis
      by (simp add: f js_braces js_Cons c(1))
  next
    case False
    with j have "j = js ''json''"
      by simp
    with m2 show ?thesis
      by (simp add: f js_braces js_Cons)
  qed
  have "rx_match RX_FENCED text 0 (0, 0)
          = rx_match (Opt (js ''json'') # R2) (j @ sp1 @ fragment @ sp2 @ FENCE @ rest) 3 (0, 0)"
    unfolding RX_FENCED_def t R2_def R3_def R4_def R5_def
    by (simp add: FENCE_def eval_nat_numeral del: rx_match.simps(3))
  with m1 have m: "rx_match_start RX_FENCED text = Some (e, a, b)"
    by (simp only: rx_match_start_def)
  define pre where "pre = FENCE @ j @ sp1"
  define mid where "mid = sp2 @ FENCE"
  have t': "text = pre @ fragment @ mid @ rest"
    by (simp add: t pre_def mid_def)
  have la: "a = length pre"
    by (simp add: a_def pre_def)
  have lb: "b = length pre + length fragment"
    by (simp add: b_def la f)
  have le: "e = length pre + length fragment + length mid + length (takeWhile isSpace rest)"
    by (simp add: e_def lb mid_def)
  have sub: "substring a b text = fragment"
    unfolding la lb substring_def by (subst t') simp
  have "drop e text = drop (length (takeWhile isSpace rest)) rest"
    unfolding le by (subst t') simp
  then have dr: "drop e text = dropWhile isSpace rest"
    by (simp add: dropWhile_eq_drop)
  from m sub dr show ?thesis
    by blast
qed

lemma atStart_fenced:
  assumes "fencedBlock text fragment rest"
  shows "atStart RX_FENCED pr text
           = map_option (\<lambda>name. \<lparr>switchVoice = name, replyText = trim rest\<rparr>)
               (parsedSwitchVoice pr fragment)"
proof -
  from fenced_exact [OF assms] obtain e a b where
    "rx_match_start RX_FENCED text = Some (e, a, b)" "substring a b text = fragment"
    "drop e text = dropWhile isSpace rest"
    by blast
  then show ?thesis
    by (simp add: atStart_def trim_dropWhile split: option.splits)
qed

lemma atStart_fenced_None:
  assumes "\<And>fragment rest. fencedBlock text fragment rest
             \<Longrightarrow> parsedSwitchVoice pr fragment = None"
  shows "atStart RX_FENCED pr text = None"
proof (cases "rx_match_start RX_FENCED text")
  case None
  then show ?thesis
    by (simp add: atStart_def)
next
  case (Some m)
  obtain e a b where m: "m = (e, a, b)"
    by (cases m)
  from Some [unfolded m] obtain j sp1 bdy sp2 sp3 where
    t: "text = FENCE @ j @ sp1 @ js ''{'' @ bdy @ js ''}'' @ sp2 @ FENCE @ sp3 @ drop e text"
    and f: "j = js ''json'' \<or> j = []" "list_all isSpace sp1" "sp1 \<noteq> []" "last sp1 = 0x0A"
      "list_all notNewline bdy" "list_all isSpace sp2" "sp2 \<noteq> []" "last sp2 = 0x0A"
    by (rule fenced_shape)
  have t': "text = FENCE @ j @ sp1 @ (js ''{'' @ bdy @ js ''}'') @ sp2 @ FENCE @ (sp3 @ drop e text)"
    by (subst t) simp
  have o: "fencedBlock text (js ''{'' @ bdy @ js ''}'') (sp3 @ drop e text)"
    unfolding fencedBlock_def object_def blankLineEnd_def
    apply (intro conjI)
     apply (rule exI [of _ bdy], simp add: f)
    apply (rule exI [of _ j], rule exI [of _ sp1], rule exI [of _ sp2])
    apply (intro conjI)
           apply (fact t' f)+
    done
  from assms [OF o] show ?thesis
    by (simp add: atStart_fenced [OF o])
qed

text \<open>The object in a line.\<close>

lemma rx_search_skip:
  assumes "0x7B \<notin> set p" and "rx_match RX_LINE s (pos + length p) (0, 0) = Some (e, c)"
  shows "rx_search RX_LINE (p @ s) pos = Some (pos + length p, e)"
  using assms
proof (induction p arbitrary: pos)
  case Nil
  then show ?case
    by (cases s) simp_all
next
  case (Cons a p)
  from Cons.prems(1) have "rx_match RX_LINE (a # p @ s) pos (0, 0) = None"
    by (simp add: RX_LINE_def js_braces)
  moreover from Cons.prems have "rx_search RX_LINE (p @ s) (Suc pos) = Some (Suc pos + length p, e)"
    by (intro Cons.IH) simp_all
  ultimately show ?case
    by simp
qed

lemma line_exact:
  assumes "objectInLine l fragment"
  shows "\<exists>a b. rx_search RX_LINE l 0 = Some (a, b) \<and> substring a b l = fragment"
proof -
  from assms have "object fragment"
    and "\<exists>p q. l = p @ fragment @ q \<and> 0x7B \<notin> set p \<and> 0x7D \<notin> set q"
    by (simp_all add: objectInLine_def)
  then obtain bdy p q where f: "fragment = js ''{'' @ bdy @ js ''}''"
    and bd: "list_all notNewline bdy" and l: "l = p @ fragment @ q"
    and np: "0x7B \<notin> set p" and nq: "0x7D \<notin> set q"
    unfolding object_def by (elim exE conjE)
  from nq have nq': "0x7D \<notin> set (takeWhile notNewline q)"
    by (auto dest: set_takeWhileD)
  have "rx_match (Star notNewline # Lit (js ''}'') # []) (bdy @ js ''}'' @ q) (Suc (length p)) (0, 0)
          = Some (Suc (length p) + length bdy + 1, (0, 0))"
    by (rule rx_match_last_brace [OF bd nq']) simp
  then have "rx_match RX_LINE (fragment @ q) (0 + length p) (0, 0)
          = Some (length p + length fragment, (0, 0))"
    by (simp add: RX_LINE_def f js_braces)
  from rx_search_skip [OF np this]
  have s: "rx_search RX_LINE l 0 = Some (length p, length p + length fragment)"
    by (simp add: l)
  have "substring (length p) (length p + length fragment) l = fragment"
    unfolding substring_def by (subst l) simp
  with s show ?thesis
    by blast
qed

lemma lineSwitchVoice_object:
  assumes "objectInLine l fragment"
  shows "lineSwitchVoice pr l = parsedSwitchVoice pr fragment"
proof -
  from line_exact [OF assms] obtain a b where "rx_search RX_LINE l 0 = Some (a, b)"
    and "substring a b l = fragment"
    by blast
  then show ?thesis
    by (simp add: lineSwitchVoice_def)
qed

lemma object_in_line_exists:
  assumes "l = p @ js ''{'' @ bdy @ js ''}'' @ q" and "0x0A \<notin> set l"
  shows "\<exists>fragment. objectInLine l fragment"
proof -
  from assms(1) have "0x7B \<in> set l"
    by (simp add: js_braces)
  from split_list_first [OF this] obtain p1 s1 where l1: "l = p1 @ 0x7B # s1"
    and p1: "0x7B \<notin> set p1"
    by blast
  from assms(1) l1 have "p @ 0x7B # bdy @ 0x7D # q = p1 @ 0x7B # s1"
    by (simp add: js_braces)
  with p1 have "0x7D \<in> set s1"
    by (auto simp: append_eq_append_conv2 Cons_eq_append_conv append_eq_Cons_conv)
  from split_list_last [OF this] obtain ys zs where s1: "s1 = ys @ 0x7D # zs"
    and zs: "0x7D \<notin> set zs"
    by blast
  from assms(2) have ys: "list_all notNewline ys"
    by (auto simp: l1 s1 list_all_iff notNewline_def)
  have "l = p1 @ (js ''{'' @ ys @ js ''}'') @ zs"
    by (simp add: l1 s1 js_braces)
  with p1 zs ys have "objectInLine l (js ''{'' @ ys @ js ''}'')"
    unfolding objectInLine_def object_def by auto
  then show ?thesis
    by blast
qed

lemma lineSwitchVoice_no_object:
  assumes "0x0A \<notin> set l"
    and "\<And>fragment. objectInLine l fragment \<Longrightarrow> parsedSwitchVoice pr fragment = None"
  shows "lineSwitchVoice pr l = None"
proof (cases "rx_search RX_LINE l 0")
  case None
  then show ?thesis
    by (simp add: lineSwitchVoice_def)
next
  case (Some m)
  obtain a b where m: "m = (a, b)"
    by (cases m)
  from Some [unfolded m] obtain p bdy q where "l = p @ js ''{'' @ bdy @ js ''}'' @ q"
    by (rule line_shape)
  from object_in_line_exists [OF this assms(1)] obtain fragment where o: "objectInLine l fragment"
    by blast
  from assms(2) [OF o] show ?thesis
    by (simp add: lineSwitchVoice_object [OF o])
qed

lemma split_no_sep: "l \<in> set (split c s) \<Longrightarrow> c \<notin> set l"
  by (induction s arbitrary: l) (auto split: if_splits list.splits)

lemma scanLines_found:
  assumes "i \<le> k" and "k < length lines"
    and "\<forall>j. i \<le> j \<and> j < k \<longrightarrow> lineSwitchVoice pr (lines ! j) = None"
    and "lineSwitchVoice pr (lines ! k) = Some name"
  shows "scanLines pr lines i
           = Some \<lparr>switchVoice = name,
                   replyText = trim (join [0x0A] (take k lines @ drop (Suc k) lines))\<rparr>"
  using assms
proof (induction "k - i" arbitrary: i)
  case 0
  then have "i = k"
    by simp
  with 0 show ?case
    by (simp add: scanLines_step)
next
  case (Suc n)
  then have i: "i < k" "i < length lines"
    by simp_all
  with Suc.prems(3) have "lineSwitchVoice pr (lines ! i) = None"
    by simp
  moreover have "scanLines pr lines (Suc i)
           = Some \<lparr>switchVoice = name,
                   replyText = trim (join [0x0A] (take k lines @ drop (Suc k) lines))\<rparr>"
    using Suc.hyps(2) Suc.prems i by (intro Suc.hyps(1)) auto
  ultimately show ?case
    using i by (simp add: scanLines_step)
qed

section \<open>The signal extractor\<close>

lemma extract_fenced:
  assumes "fencedBlock text fragment rest" and "parsedSwitchVoice pr fragment = Some name"
  shows "extractSwitchVoiceSignal pr text = Some \<lparr>switchVoice = name, replyText = trim rest\<rparr>"
proof -
  from assms(1) have "text \<noteq> []"
    by (auto simp: fencedBlock_def FENCE_def)
  then show ?thesis
    by (simp add: extractSwitchVoiceSignal_def atStart_fenced [OF assms(1)] assms(2))
qed

lemma extract_first_line:
  assumes "objectAtStart text fragment rest" and "parsedSwitchVoice pr fragment = Some name"
  shows "extractSwitchVoiceSignal pr text = Some \<lparr>switchVoice = name, replyText = trim rest\<rparr>"
proof -
  from assms(1) have "text \<noteq> []"
    by (auto simp: objectAtStart_def object_def js_braces)
  then show ?thesis
    by (simp add: extractSwitchVoiceSignal_def object_at_start_not_fenced [OF assms(1)]
          atStart_first_line [OF assms(1)] assms(2))
qed

lemma extract_scan:
  assumes "text \<noteq> []"
    and "\<And>fragment rest. fencedBlock text fragment rest \<or> objectAtStart text fragment rest
           \<Longrightarrow> parsedSwitchVoice pr fragment = None"
  shows "extractSwitchVoiceSignal pr text = scanLines pr (split 0x0A text) 0"
proof -
  have "atStart RX_FENCED pr text = None"
    by (rule atStart_fenced_None) (rule assms(2), rule disjI1)
  moreover have "atStart RX_FIRST_LINE pr text = None"
    by (rule atStart_first_line_None) (rule assms(2), rule disjI2)
  ultimately show ?thesis
    using assms(1) by (simp add: extractSwitchVoiceSignal_def)
qed

lemma extract_line:
  assumes "text \<noteq> []"
    and "\<And>fragment rest. fencedBlock text fragment rest \<or> objectAtStart text fragment rest
           \<Longrightarrow> parsedSwitchVoice pr fragment = None"
    and "k < length (split 0x0A text)"
    and "objectInLine (split 0x0A text ! k) fragment"
    and "parsedSwitchVoice pr fragment = Some name"
    and "\<And>j f. j < k \<Longrightarrow> objectInLine (split 0x0A text ! j) f \<Longrightarrow> parsedSwitchVoice pr f = None"
  shows "extractSwitchVoiceSignal pr text
           = Some \<lparr>switchVoice = name,
                   replyText = trim (join [0x0A] (take k (split 0x0A text)
                                 @ drop (Suc k) (split 0x0A text)))\<rparr>"
proof -
  have "lineSwitchVoice pr (split 0x0A text ! j) = None" if "j < k" for j
  proof (rule lineSwitchVoice_no_object)
    from that assms(3) have "split 0x0A text ! j \<in> set (split 0x0A text)"
      by simp
    then show "0x0A \<notin> set (split 0x0A text ! j)"
      by (rule split_no_sep)
  next
    fix f assume "objectInLine (split 0x0A text ! j) f"
    with that show "parsedSwitchVoice pr f = None"
      by (rule assms(6))
  qed
  then have "\<forall>j. 0 \<le> j \<and> j < k \<longrightarrow> lineSwitchVoice pr (split 0x0A text ! j) = None"
    by simp
  moreover have "lineSwitchVoice pr (split 0x0A text ! k) = Some name"
    by (simp add: lineSwitchVoice_object [OF assms(4)] assms(5))
  ultimately have "scanLines pr (split 0x0A text) 0
           = Some \<lparr>switchVoice = name,
                   replyText = trim (join [0x0A] (take k (split 0x0A text)
                                 @ drop (Suc k) (split 0x0A text)))\<rparr>"
    using assms(3) by (intro scanLines_found) simp_all
  with extract_scan [OF assms(1,2)] show ?thesis
    by simp
qed

lemma extract_none:
  assumes "text \<noteq> []"
    and "\<And>fragment rest. fencedBlock text fragment rest \<or> objectAtStart text fragment rest
           \<Longrightarrow> parsedSwitchVoice pr fragment = None"
    and "\<And>j f. j < length (split 0x0A text) \<Longrightarrow> objectInLine (split 0x0A text ! j) f
           \<Longrightarrow> parsedSwitchVoice pr f = None"
  shows "extractSwitchVoiceSignal pr text = None"
proof -
  have "lineSwitchVoice pr (split 0x0A text ! j) = None" if "j < length (split 0x0A text)" for j
  proof (rule lineSwitchVoice_no_object)
    from that have "split 0x0A text ! j \<in> set (split 0x0A text)"
      by simp
    then show "0x0A \<notin> set (split 0x0A text ! j)"
      by (rule split_no_sep)
  next
    fix f assume "objectInLine (split 0x0A text ! j) f"
    with that show "parsedSwitchVoice pr f = None"
      by (rule assms(3))
  qed
  then have "scanLines pr (split 0x0A text) 0 = None"
    by (simp add: scanLines_None)
  with extract_scan [OF assms(1,2)] show ?thesis
    by simp
qed

text \<open>
  C5, as amended. On the empty text there is no signal. Otherwise the extractor takes the
  first of three strategies that finds a directive, a fragment that the parser reads as an
  object with a non-empty string under \<open>switchVoice\<close> (other fields are not looked at).
  First, the fenced block: the text is a fence, an optional \<open>json\<close>, white space ending in
  a line feed, an object on one line, white space ending in a line feed, a fence and a rest;
  when the object is a directive, the reply text is the rest, trimmed. Second, the object at
  the start: the text begins with an opening brace, and the fragment runs to the last closing
  brace of the first line; when it is a directive, the reply text is what follows it, trimmed.
  When neither gives a directive (no such shape, or the fragment is not a directive), the
  lines are scanned in their order; the fragment of a line runs from its first opening brace
  to its last closing brace. The first line whose fragment is a directive gives the signal;
  that whole line, with whatever stands before and after the fragment on it, is removed, and
  the reply text is the other lines joined by line feeds, trimmed. When no line has a
  directive there is no signal, and the reply of the turn is the raw text.
\<close>

theorem signal_extraction:
  "extractSwitchVoiceSignal pr [] = None
   \<and> (\<forall>fragment rest name.
         fencedBlock text fragment rest \<and> parsedSwitchVoice pr fragment = Some name
         \<longrightarrow> extractSwitchVoiceSignal pr text
               = Some \<lparr>switchVoice = name, replyText = trim rest\<rparr>)
   \<and> (\<forall>fragment rest name.
         objectAtStart text fragment rest \<and> parsedSwitchVoice pr fragment = Some name
         \<longrightarrow> extractSwitchVoiceSignal pr text
               = Some \<lparr>switchVoice = name, replyText = trim rest\<rparr>)
   \<and> (text \<noteq> []
        \<and> (\<forall>fragment rest. fencedBlock text fragment rest \<or> objectAtStart text fragment rest
               \<longrightarrow> parsedSwitchVoice pr fragment = None)
        \<longrightarrow> (\<forall>k fragment name.
                k < length (split 0x0A text) \<and> objectInLine (split 0x0A text ! k) fragment
                \<and> parsedSwitchVoice pr fragment = Some name
                \<and> (\<forall>j f. j < k \<and> objectInLine (split 0x0A text ! j) f
                       \<longrightarrow> parsedSwitchVoice pr f = None)
                \<longrightarrow> extractSwitchVoiceSignal pr text
                      = Some \<lparr>switchVoice = name,
                              replyText = trim (join [0x0A] (take k (split 0x0A text)
                                            @ drop (Suc k) (split 0x0A text)))\<rparr>)
            \<and> ((\<forall>j f. j < length (split 0x0A text) \<and> objectInLine (split 0x0A text ! j) f
                    \<longrightarrow> parsedSwitchVoice pr f = None)
                 \<longrightarrow> extractSwitchVoiceSignal pr text = None))
   \<and> (\<forall>fragment name. parsedSwitchVoice pr fragment = Some name \<longleftrightarrow>
         name \<noteq> [] \<and> (\<exists>kvs. pr fragment = Some (JObject kvs)
            \<and> map_of (rev kvs) (js ''switchVoice'') = Some (JString name)))
   \<and> reply (resolveSignal env vs v conv t None) = t"
proof (intro conjI allI impI, goal_cases)
  case 1
  show ?case by (simp add: extractSwitchVoiceSignal_def)
next
  case (2 fragment rest name)
  then have "fencedBlock text fragment rest" and "parsedSwitchVoice pr fragment = Some name"
    by simp_all
  then show ?case by (rule extract_fenced)
next
  case (3 fragment rest name)
  then have "objectAtStart text fragment rest" and "parsedSwitchVoice pr fragment = Some name"
    by simp_all
  then show ?case by (rule extract_first_line)
next
  case (4 k fragment name)
  show ?case
  proof (rule extract_line)
    from 4(1) show "text \<noteq> []" by simp
    from 4(2) show "k < length (split 0x0A text)"
      and "objectInLine (split 0x0A text ! k) fragment"
      and "parsedSwitchVoice pr fragment = Some name"
      by simp_all
  next
    fix fragment rest
    assume "fencedBlock text fragment rest \<or> objectAtStart text fragment rest"
    with 4(1) show "parsedSwitchVoice pr fragment = None" by blast
  next
    fix j f
    assume "j < k" and "objectInLine (split 0x0A text ! j) f"
    with 4(2) show "parsedSwitchVoice pr f = None" by blast
  qed
next
  case 5
  show ?case
  proof (rule extract_none)
    from 5(1) show "text \<noteq> []" by simp
  next
    fix fragment rest
    assume "fencedBlock text fragment rest \<or> objectAtStart text fragment rest"
    with 5(1) show "parsedSwitchVoice pr fragment = None" by blast
  next
    fix j f
    assume "j < length (split 0x0A text)" and "objectInLine (split 0x0A text ! j) f"
    with 5(2) show "parsedSwitchVoice pr f = None" by blast
  qed
next
  case (6 fragment name)
  show ?case by (rule parsedSwitchVoice_iff)
next
  case 7
  show ?case by (simp add: resolveSignal_def)
qed


lemma fenced_starts: "fencedBlock text fragment rest \<Longrightarrow> prefix FENCE text"
  by (auto simp: fencedBlock_def)

lemma object_at_start_starts: "objectAtStart text fragment rest \<Longrightarrow> prefix (js ''{'') text"
  by (auto simp: objectAtStart_def object_def)

lemma object_in_line_brace: "objectInLine l fragment \<Longrightarrow> 0x7B \<in> set l"
  by (auto simp: objectInLine_def object_def js_braces)

lemma scan_lines:
  \<open>split 0x0A (js ''Sure\<newline>{"switchVoice":"Didi"}\<newline>Hello'')
     = [js ''Sure'', js ''{"switchVoice":"Didi"}'', js ''Hello'']\<close>
  by code_simp

lemma scan_object_in_line: \<open>objectInLine (js ''{"switchVoice":"Didi"}'') (js ''{"switchVoice":"Didi"}'')\<close>
proof -
  have \<open>list_all notNewline (js ''"switchVoice":"Didi"'')\<close>
    by code_simp
  moreover have \<open>js ''{"switchVoice":"Didi"}'' = js ''{'' @ js ''"switchVoice":"Didi"'' @ js ''}''\<close>
    by simp
  ultimately have \<open>object (js ''{"switchVoice":"Didi"}'')\<close>
    unfolding object_def by blast
  then show ?thesis
    unfolding objectInLine_def by (intro conjI exI [of _ "[]"]) simp_all
qed

lemma scan_not_at_start:
  \<open>\<not> prefix FENCE (js ''Sure\<newline>{"switchVoice":"Didi"}\<newline>Hello'')\<close>
  \<open>\<not> prefix (js ''{'') (js ''Sure\<newline>{"switchVoice":"Didi"}\<newline>Hello'')\<close>
  \<open>0x7B \<notin> set (js ''Sure'')\<close>
  \<open>trim (join [0x0A]
      (take 1 (split 0x0A (js ''Sure\<newline>{"switchVoice":"Didi"}\<newline>Hello''))
       @ drop (Suc 1) (split 0x0A (js ''Sure\<newline>{"switchVoice":"Didi"}\<newline>Hello''))))
     = js ''Sure\<newline>Hello''\<close>
  by code_simp+

lemma plain_reply:
  \<open>\<not> prefix FENCE (js ''Hello there.'')\<close>
  \<open>\<not> prefix (js ''{'') (js ''Hello there.'')\<close>
  \<open>split 0x0A (js ''Hello there.'') = [js ''Hello there.'']\<close>
  \<open>0x7B \<notin> set (js ''Hello there.'')\<close>
  by code_simp+

lemma sample_object_at_start:
  \<open>objectAtStart (js ''{"switchVoice":"Didi"}\<newline>Hello there.'')
     (js ''{"switchVoice":"Didi"}'') (js ''\<newline>Hello there.'')\<close>
proof -
  have \<open>list_all notNewline (js ''"switchVoice":"Didi"'')\<close>
    by code_simp
  moreover have \<open>js ''{"switchVoice":"Didi"}'' = js ''{'' @ js ''"switchVoice":"Didi"'' @ js ''}''\<close>
    by simp
  ultimately have \<open>object (js ''{"switchVoice":"Didi"}'')\<close>
    unfolding object_def by blast
  moreover have \<open>of_char (CHR ''}'') \<notin> set (takeWhile notNewline (js ''\<newline>Hello there.''))\<close>
    by code_simp
  ultimately show ?thesis
    by (simp add: objectAtStart_def)
qed

lemma sample_fenced_block:
  \<open>fencedBlock (FENCE @ js ''json\<newline>{"switchVoice":"Didi"}\<newline>'' @ FENCE @ js ''\<newline>Hello there.'')
     (js ''{"switchVoice":"Didi"}'') (js ''\<newline>Hello there.'')\<close>
proof -
  have \<open>list_all notNewline (js ''"switchVoice":"Didi"'')\<close>
    by code_simp
  moreover have \<open>js ''{"switchVoice":"Didi"}'' = js ''{'' @ js ''"switchVoice":"Didi"'' @ js ''}''\<close>
    by simp
  ultimately have o: \<open>object (js ''{"switchVoice":"Didi"}'')\<close>
    unfolding object_def by blast
  have b: \<open>blankLineEnd (js ''\<newline>'')\<close>
    by (simp add: blankLineEnd_def js_Cons isSpace_newline)
  have t: \<open>FENCE @ js ''json\<newline>{"switchVoice":"Didi"}\<newline>'' @ FENCE @ js ''\<newline>Hello there.''
       = FENCE @ js ''json'' @ js ''\<newline>'' @ js ''{"switchVoice":"Didi"}'' @ js ''\<newline>'' @ FENCE
         @ js ''\<newline>Hello there.''\<close>
    by (simp add: js_def)
  show ?thesis
    unfolding fencedBlock_def
    apply (intro conjI o)
    apply (rule exI [of _ "js ''json''"], rule exI [of _ \<open>js ''\<newline>''\<close>], rule exI [of _ \<open>js ''\<newline>''\<close>])
    apply (intro conjI t b disjI1 refl)
    done
qed

lemma sample_parsed:
  \<open>parsedSwitchVoice json_parse (js ''{"switchVoice":"Didi"}'') = Some (js ''Didi'')\<close>
  by code_simp

lemma sample_rest: \<open>trim (js ''\<newline>Hello there.'') = js ''Hello there.''\<close>
  by code_simp

theorem signal_extraction_witness:
  \<open>extractSwitchVoiceSignal json_parse (js ''{"switchVoice":"Didi"}\<newline>Hello there.'')
     = Some \<lparr>switchVoice = js ''Didi'', replyText = js ''Hello there.''\<rparr>
   \<and> extractSwitchVoiceSignal json_parse
       (FENCE @ js ''json\<newline>{"switchVoice":"Didi"}\<newline>'' @ FENCE @ js ''\<newline>Hello there.'')
     = Some \<lparr>switchVoice = js ''Didi'', replyText = js ''Hello there.''\<rparr>
   \<and> extractSwitchVoiceSignal json_parse (js ''Sure\<newline>{"switchVoice":"Didi"}\<newline>Hello'')
     = Some \<lparr>switchVoice = js ''Didi'', replyText = js ''Sure\<newline>Hello''\<rparr>
   \<and> extractSwitchVoiceSignal json_parse (js ''Hello there.'') = None\<close>
proof (intro conjI)
  have c: \<open>js ''Hello there.'' \<noteq> [] \<and> (\<forall>fragment rest. fencedBlock (js ''Hello there.'') fragment rest
             \<or> objectAtStart (js ''Hello there.'') fragment rest
             \<longrightarrow> parsedSwitchVoice json_parse fragment = None)\<close>
    using plain_reply(1,2) by (auto dest: fenced_starts object_at_start_starts)
  have d: \<open>\<forall>j f. j < length (split 0x0A (js ''Hello there.''))
             \<and> objectInLine (split 0x0A (js ''Hello there.'') ! j) f
             \<longrightarrow> parsedSwitchVoice json_parse f = None\<close>
    using plain_reply(4) by (auto simp: plain_reply(3) dest: object_in_line_brace)
  show \<open>extractSwitchVoiceSignal json_parse (js ''Hello there.'') = None\<close>
    by (rule signal_extraction [THEN conjunct2, THEN conjunct2, THEN conjunct2, THEN conjunct1,
          rule_format, OF c, THEN conjunct2, THEN mp, OF d])
  have \<open>extractSwitchVoiceSignal json_parse (js ''{"switchVoice":"Didi"}\<newline>Hello there.'')
     = Some \<lparr>switchVoice = js ''Didi'', replyText = trim (js ''\<newline>Hello there.'')\<rparr>\<close>
    by (rule signal_extraction [THEN conjunct2, THEN conjunct2, THEN conjunct1, rule_format])
      (rule conjI [OF sample_object_at_start sample_parsed])
  then show \<open>extractSwitchVoiceSignal json_parse (js ''{"switchVoice":"Didi"}\<newline>Hello there.'')
     = Some \<lparr>switchVoice = js ''Didi'', replyText = js ''Hello there.''\<rparr>\<close>
    by (simp only: sample_rest)
  have \<open>extractSwitchVoiceSignal json_parse
       (FENCE @ js ''json\<newline>{"switchVoice":"Didi"}\<newline>'' @ FENCE @ js ''\<newline>Hello there.'')
     = Some \<lparr>switchVoice = js ''Didi'', replyText = trim (js ''\<newline>Hello there.'')\<rparr>\<close>
    by (rule signal_extraction [THEN conjunct2, THEN conjunct1, rule_format])
      (rule conjI [OF sample_fenced_block sample_parsed])
  then show \<open>extractSwitchVoiceSignal json_parse
       (FENCE @ js ''json\<newline>{"switchVoice":"Didi"}\<newline>'' @ FENCE @ js ''\<newline>Hello there.'')
     = Some \<lparr>switchVoice = js ''Didi'', replyText = js ''Hello there.''\<rparr>\<close>
    by (simp only: sample_rest)
  let ?text = \<open>js ''Sure\<newline>{"switchVoice":"Didi"}\<newline>Hello''\<close>
  have a: \<open>?text \<noteq> [] \<and> (\<forall>fragment rest. fencedBlock ?text fragment rest
             \<or> objectAtStart ?text fragment rest \<longrightarrow> parsedSwitchVoice json_parse fragment = None)\<close>
    using scan_not_at_start(1,2) by (auto dest: fenced_starts object_at_start_starts)
  have b: \<open>1 < length (split 0x0A ?text)
       \<and> objectInLine (split 0x0A ?text ! 1) (js ''{"switchVoice":"Didi"}'')
       \<and> parsedSwitchVoice json_parse (js ''{"switchVoice":"Didi"}'') = Some (js ''Didi'')
       \<and> (\<forall>j f. j < 1 \<and> objectInLine (split 0x0A ?text ! j) f
              \<longrightarrow> parsedSwitchVoice json_parse f = None)\<close>
    using scan_not_at_start(3)
    by (auto simp: scan_lines scan_object_in_line sample_parsed dest: object_in_line_brace)
  have \<open>extractSwitchVoiceSignal json_parse ?text
     = Some \<lparr>switchVoice = js ''Didi'',
             replyText = trim (join [0x0A] (take 1 (split 0x0A ?text)
                                 @ drop (Suc 1) (split 0x0A ?text)))\<rparr>\<close>
    by (rule signal_extraction [THEN conjunct2, THEN conjunct2, THEN conjunct2, THEN conjunct1,
          rule_format, OF a, THEN conjunct1, rule_format, OF b])
  then show \<open>extractSwitchVoiceSignal json_parse ?text
     = Some \<lparr>switchVoice = js ''Didi'', replyText = js ''Sure\<newline>Hello''\<rparr>\<close>
    by (simp only: scan_not_at_start(4))
qed

text \<open>
  C5 as stated fails on a directive that shares its line with other text: stripping the
  fragment from \<open>Sure {"switchVoice":"Didi"} Hello\<close> leaves \<open>Sure  Hello\<close>, but the line scan
  removes the whole line and the reply text is empty.
\<close>

theorem signal_extraction_counterexample:
  \<open>extractSwitchVoiceSignal json_parse (js ''Sure {"switchVoice":"Didi"} Hello'')
     = Some \<lparr>switchVoice = js ''Didi'', replyText = []\<rparr>
   \<and> trim (spec_strip (js ''{"switchVoice":"Didi"}'') (js ''Sure {"switchVoice":"Didi"} Hello''))
     = js ''Sure  Hello''\<close>
  by code_simp

section \<open>The queue of turns\<close>

lemma tasks_setState [simp]: "length (tasks (setState i s q)) = length (tasks q)"
  by (simp add: setState_def)

lemma turnQueues_setState [simp]: "turnQueues (setState i s q) = turnQueues q"
  by (simp add: setState_def)

lemma key_setState [simp]: "key (tasks (setState i s q) ! j) = key (tasks q ! j)"
  by (cases "i < length (tasks q)"; cases "j = i") (simp_all add: setState_def not_less list_update_beyond)

lemma awaits_setState [simp]: "awaits (tasks (setState i s q) ! j) = awaits (tasks q ! j)"
  by (cases "i < length (tasks q)"; cases "j = i") (simp_all add: setState_def not_less list_update_beyond)

lemma state_setState:
  "i < length (tasks q) \<Longrightarrow>
   state (tasks (setState i s q) ! j) = (if j = i then s else state (tasks q ! j))"
  by (simp add: setState_def)

lemma tasks_enqueue [simp]:
  "length (tasks (snd (enqueueTurn c q))) = Suc (length (tasks q))"
  by (simp add: enqueueTurn_def Let_def)

lemma old_task_enqueue [simp]:
  "j < length (tasks q) \<Longrightarrow> tasks (snd (enqueueTurn c q)) ! j = tasks q ! j"
  by (simp add: enqueueTurn_def Let_def nth_append)

lemma new_task_enqueue [simp]:
  "tasks (snd (enqueueTurn c q)) ! length (tasks q)
     = \<lparr>key = c, awaits = turnQueues q c, state = Waiting\<rparr>"
  by (simp add: enqueueTurn_def Let_def)

lemma turnQueues_enqueue [simp]:
  "turnQueues (snd (enqueueTurn c q)) = (turnQueues q)(c \<mapsto> length (tasks q))"
  by (simp add: enqueueTurn_def Let_def)

lemma lastOfKey_setState [simp]: "lastOfKey (setState i s q) = lastOfKey q"
  by (simp add: lastOfKey_def cong: option.case_cong)

lemma awaitsPrevious_setState [simp]: "awaitsPrevious (setState i s q) = awaitsPrevious q"
  by (simp add: awaitsPrevious_def cong: option.case_cong)

lemma lastOfKey_step:
  assumes "lastOfKey q" and "step e q = Some q'"
  shows "lastOfKey q'"
proof (cases e)
  case (Submit c)
  with assms(2) have q': "q' = snd (enqueueTurn c q)" by simp
  show ?thesis
    unfolding lastOfKey_def
  proof
    fix d
    show "case turnQueues q' d of
            None \<Rightarrow> (\<forall>j < length (tasks q'). key (tasks q' ! j) \<noteq> d)
          | Some i \<Rightarrow> i < length (tasks q') \<and> key (tasks q' ! i) = d
                      \<and> (\<forall>j < length (tasks q'). key (tasks q' ! j) = d \<longrightarrow> j \<le> i)"
    proof (cases "d = c")
      case True
      then show ?thesis
        by (auto simp: q' less_Suc_eq)
    next
      case False
      from assms(1) have "case turnQueues q d of
            None \<Rightarrow> (\<forall>j < length (tasks q). key (tasks q ! j) \<noteq> d)
          | Some i \<Rightarrow> i < length (tasks q) \<and> key (tasks q ! i) = d
                      \<and> (\<forall>j < length (tasks q). key (tasks q ! j) = d \<longrightarrow> j \<le> i)"
        by (simp add: lastOfKey_def)
      with False show ?thesis
        by (auto simp: q' less_Suc_eq split: option.splits)
    qed
  qed
next
  case (Start i)
  with assms show ?thesis
    by (auto split: if_splits)
next
  case (Finish i r)
  with assms show ?thesis
    by (auto split: if_splits)
qed

lemma awaitsPrevious_step:
  assumes "lastOfKey q" and "awaitsPrevious q" and "step e q = Some q'"
  shows "awaitsPrevious q'"
proof (cases e)
  case (Submit c)
  with assms(3) have q': "q' = snd (enqueueTurn c q)" by simp
  from assms(1) have l: "case turnQueues q c of
            None \<Rightarrow> (\<forall>j < length (tasks q). key (tasks q ! j) \<noteq> c)
          | Some i \<Rightarrow> i < length (tasks q) \<and> key (tasks q ! i) = c
                      \<and> (\<forall>j < length (tasks q). key (tasks q ! j) = c \<longrightarrow> j \<le> i)"
    by (simp add: lastOfKey_def)
  show ?thesis
    unfolding awaitsPrevious_def
  proof (intro allI impI)
    fix j assume "j < length (tasks q')"
    then have "j < length (tasks q) \<or> j = length (tasks q)"
      by (auto simp: q')
    then show "case awaits (tasks q' ! j) of
          None \<Rightarrow> (\<forall>i < j. key (tasks q' ! i) \<noteq> key (tasks q' ! j))
        | Some p \<Rightarrow> p < j \<and> key (tasks q' ! p) = key (tasks q' ! j)
                    \<and> (\<forall>i < j. key (tasks q' ! i) = key (tasks q' ! j) \<longrightarrow> i \<le> p)"
    proof
      assume j: "j < length (tasks q)"
      with assms(2) have "case awaits (tasks q ! j) of
          None \<Rightarrow> (\<forall>i < j. key (tasks q ! i) \<noteq> key (tasks q ! j))
        | Some p \<Rightarrow> p < j \<and> key (tasks q ! p) = key (tasks q ! j)
                    \<and> (\<forall>i < j. key (tasks q ! i) = key (tasks q ! j) \<longrightarrow> i \<le> p)"
        by (simp add: awaitsPrevious_def)
      with j show ?thesis
        by (auto simp: q' split: option.splits)
    next
      assume j: "j = length (tasks q)"
      with l show ?thesis
        by (auto simp: q' split: option.splits)
    qed
  qed
next
  case (Start i)
  with assms show ?thesis
    by (auto split: if_splits)
next
  case (Finish i r)
  with assms show ?thesis
    by (auto split: if_splits)
qed

lemma oneAtATimeD:
  "oneAtATime q \<Longrightarrow> i < j \<Longrightarrow> j < length (tasks q)
   \<Longrightarrow> key (tasks q ! i) = key (tasks q ! j) \<Longrightarrow> state (tasks q ! j) \<noteq> Waiting
   \<Longrightarrow> isSettled (state (tasks q ! i))"
  unfolding oneAtATime_def by blast

lemma oneAtATime_step:
  assumes "awaitsPrevious q" and "oneAtATime q" and "step e q = Some q'"
  shows "oneAtATime q'"
proof (cases e)
  case (Submit c)
  with assms(3) have q': "q' = snd (enqueueTurn c q)" by simp
  show ?thesis
    unfolding oneAtATime_def
  proof (intro allI impI)
    fix i j
    assume a: "i < j \<and> j < length (tasks q') \<and> key (tasks q' ! i) = key (tasks q' ! j)
                 \<and> state (tasks q' ! j) \<noteq> Waiting"
    then have "j \<noteq> length (tasks q)"
      by (auto simp: q')
    with a have "j < length (tasks q)" "i < length (tasks q)"
      by (auto simp: q')
    with a oneAtATimeD [OF assms(2), of i j] show "isSettled (state (tasks q' ! i))"
      by (simp add: q')
  qed
next
  case (Start k)
  with assms(3) have c: "canStart q k" and q': "q' = setState k Running q"
    by (auto split: if_splits)
  from c have k: "k < length (tasks q)" "state (tasks q ! k) = Waiting"
    by (auto simp: canStart_def)
  show ?thesis
    unfolding oneAtATime_def
  proof (intro allI impI)
    fix i j
    assume a: "i < j \<and> j < length (tasks q') \<and> key (tasks q' ! i) = key (tasks q' ! j)
                 \<and> state (tasks q' ! j) \<noteq> Waiting"
    then have ij: "i < j" "j < length (tasks q)" "key (tasks q ! i) = key (tasks q ! j)"
      by (auto simp: q')
    show "isSettled (state (tasks q' ! i))"
    proof (cases "j = k")
      case True
      from assms(1) k(1) have "case awaits (tasks q ! k) of
          None \<Rightarrow> (\<forall>i < k. key (tasks q ! i) \<noteq> key (tasks q ! k))
        | Some p \<Rightarrow> p < k \<and> key (tasks q ! p) = key (tasks q ! k)
                    \<and> (\<forall>i < k. key (tasks q ! i) = key (tasks q ! k) \<longrightarrow> i \<le> p)"
        by (simp add: awaitsPrevious_def)
      with ij True c obtain p where p: "p < k" "key (tasks q ! p) = key (tasks q ! k)" "i \<le> p"
        "isSettled (state (tasks q ! p))"
        by (auto simp: canStart_def split: option.splits)
      have "isSettled (state (tasks q ! i))"
      proof (cases "i = p")
        case True
        with p show ?thesis by simp
      next
        case False
        with p have "i < p" by simp
        moreover from p(4) have "state (tasks q ! p) \<noteq> Waiting"
          by (auto simp: isSettled_def)
        moreover from p(1) k(1) have "p < length (tasks q)" by simp
        moreover from ij(3) True p(2) have "key (tasks q ! i) = key (tasks q ! p)" by simp
        ultimately show ?thesis
          using oneAtATimeD [OF assms(2), of i p] by simp
      qed
      with ij True k(1) show ?thesis
        by (simp add: q' state_setState)
    next
      case False
      with a k(1) have "state (tasks q ! j) \<noteq> Waiting"
        by (simp add: q' state_setState)
      with ij oneAtATimeD [OF assms(2), of i j] have s: "isSettled (state (tasks q ! i))"
        by simp
      with k(2) have "i \<noteq> k"
        by (auto simp: isSettled_def)
      with s k(1) show ?thesis
        by (simp add: q' state_setState)
    qed
  qed
next
  case (Finish k r)
  with assms(3) have k: "k < length (tasks q)" "state (tasks q ! k) = Running"
    and q': "q' = setState k (Settled r) q"
    by (auto split: if_splits)
  show ?thesis
    unfolding oneAtATime_def
  proof (intro allI impI)
    fix i j
    assume a: "i < j \<and> j < length (tasks q') \<and> key (tasks q' ! i) = key (tasks q' ! j)
                 \<and> state (tasks q' ! j) \<noteq> Waiting"
    then have ij: "i < j" "j < length (tasks q)" "key (tasks q ! i) = key (tasks q ! j)"
      by (auto simp: q')
    from a k have "state (tasks q ! j) \<noteq> Waiting"
      by (cases "j = k") (simp_all add: q' state_setState)
    with ij oneAtATimeD [OF assms(2), of i j] have "isSettled (state (tasks q ! i))"
      by simp
    with k(1) show "isSettled (state (tasks q' ! i))"
      by (simp add: q' state_setState isSettled_def)
  qed
qed

lemma queue_inv_empty: "queue_inv emptyQueues"
  by (simp add: queue_inv_def lastOfKey_def awaitsPrevious_def oneAtATime_def emptyQueues_def)

lemma queue_inv_step: "queue_inv q \<Longrightarrow> step e q = Some q' \<Longrightarrow> queue_inv q'"
  unfolding queue_inv_def
  using lastOfKey_step awaitsPrevious_step oneAtATime_step by blast

lemma queue_inv_run: "queue_inv q \<Longrightarrow> run es q = Some q' \<Longrightarrow> queue_inv q'"
proof (induction es arbitrary: q)
  case Nil
  then show ?case by simp
next
  case (Cons e es)
  from Cons.prems(2) obtain q1 where s: "step e q = Some q1" and r: "run es q1 = Some q'"
    by (auto split: option.splits)
  from Cons.IH [OF queue_inv_step [OF Cons.prems(1) s] r] show ?case .
qed

lemma run_append:
  "run (es1 @ es2) q = (case run es1 q of None \<Rightarrow> None | Some q' \<Rightarrow> run es2 q')"
  by (induction es1 arbitrary: q) (auto split: option.splits)

lemma run_snoc:
  "run (es @ [e]) q = Some q' \<longleftrightarrow> (\<exists>q1. run es q = Some q1 \<and> step e q1 = Some q')"
  by (auto simp: run_append split: option.splits)



lemma submitted_snoc:
  "submitted (es @ [e]) = submitted es @ (case e of Submit c \<Rightarrow> [c] | _ \<Rightarrow> [])"
  by (simp add: submitted_def)

lemma map_key_setState [simp]: "map key (tasks (setState i s q)) = map key (tasks q)"
  by (rule nth_equalityI) simp_all

lemma map_key_enqueue [simp]:
  "map key (tasks (snd (enqueueTurn c q))) = map key (tasks q) @ [c]"
  by (simp add: enqueueTurn_def Let_def)

lemma finishOf_simps [simp]:
  "finishOf i (Finish k r) = (k = i)" "finishOf i (Start k) = False"
  "finishOf i (Submit c) = False"
  by (simp_all add: finishOf_def)


lemma table_keys:
  "run es emptyQueues = Some q \<Longrightarrow> dom (turnQueues q) = set (submitted es)"
proof (induction es arbitrary: q rule: rev_induct)
  case Nil
  then show ?case
    by (auto simp: emptyQueues_def submitted_def)
next
  case (snoc e es)
  from snoc.prems obtain q1 where r: "run es emptyQueues = Some q1" and s: "step e q1 = Some q"
    by (auto simp: run_snoc)
  from s have "dom (turnQueues q)
                 = dom (turnQueues q1) \<union> set (case e of Submit c \<Rightarrow> [c] | _ \<Rightarrow> [])"
    by (cases e) (auto split: if_splits)
  then show ?case
    by (simp add: snoc.IH [OF r] submitted_snoc)
qed







lemma run_drainSchedule: "run drainSchedule emptyQueues = Some drained"
  by (simp add: drainSchedule_def emptyQueues_def drained_def enqueueTurn_def Let_def
        canStart_def setState_def isSettled_def)


text \<open>
  C7, as amended. Let a schedule run from the empty queues. The table \<open>turnQueues\<close> has an
  entry for every conversation id submitted so far and for no other; the entry of an id is
  the last task submitted for it, whether that task is waiting, running or settled; and
  whatever happens afterwards, no id leaves the table.
\<close>

theorem queue_table_never_pruned:
  assumes "run es emptyQueues = Some q"
  shows "dom (turnQueues q) = set (submitted es)
       \<and> (\<forall>c i. turnQueues q c = Some i \<longrightarrow>
             i < length (tasks q) \<and> key (tasks q ! i) = c
             \<and> (\<forall>j<length (tasks q). key (tasks q ! j) = c \<longrightarrow> j \<le> i))
       \<and> (\<forall>es' q'. run es' q = Some q' \<longrightarrow> dom (turnQueues q) \<subseteq> dom (turnQueues q'))"
proof -
  have 1: "dom (turnQueues q) = set (submitted es)"
    by (rule table_keys [OF assms])
  have "lastOfKey q"
    using queue_inv_run [OF queue_inv_empty assms] by (simp add: queue_inv_def)
  then have l: "case turnQueues q c of
            None \<Rightarrow> (\<forall>j < length (tasks q). key (tasks q ! j) \<noteq> c)
          | Some i \<Rightarrow> i < length (tasks q) \<and> key (tasks q ! i) = c
                      \<and> (\<forall>j < length (tasks q). key (tasks q ! j) = c \<longrightarrow> j \<le> i)" for c
    by (simp add: lastOfKey_def)
  have 2: "\<forall>c i. turnQueues q c = Some i \<longrightarrow>
             i < length (tasks q) \<and> key (tasks q ! i) = c
             \<and> (\<forall>j<length (tasks q). key (tasks q ! j) = c \<longrightarrow> j \<le> i)"
  proof (intro allI impI)
    fix c i assume "turnQueues q c = Some i"
    with l [of c] show "i < length (tasks q) \<and> key (tasks q ! i) = c
             \<and> (\<forall>j<length (tasks q). key (tasks q ! j) = c \<longrightarrow> j \<le> i)"
      by simp
  qed
  have 3: "\<forall>es' q'. run es' q = Some q' \<longrightarrow> dom (turnQueues q) \<subseteq> dom (turnQueues q')"
  proof (intro allI impI)
    fix es' q' assume "run es' q = Some q'"
    with assms have "run (es @ es') emptyQueues = Some q'"
      by (simp add: run_append)
    from table_keys [OF this] 1 show "dom (turnQueues q) \<subseteq> dom (turnQueues q')"
      by (auto simp: submitted_def)
  qed
  from 1 2 3 show ?thesis
    by (intro conjI)
qed

theorem queue_table_never_pruned_witness:
  "dom (turnQueues drained) = {(js ''c1''), (js ''c2'')}"
  using queue_table_never_pruned [OF run_drainSchedule]
  by (auto simp: drainSchedule_def submitted_def)

lemma submitted_drainAll: "submitted (drainAll n) = map convId [0..<n]"
  by (induction n) (simp_all add: submitted_def)

lemma inj_convId: "inj convId"
  by (rule injI) (auto simp: convId_def dest: arg_cong [where f = length])

lemma run_drainAll:
  "\<exists>q. run (drainAll n) emptyQueues = Some q \<and> length (tasks q) = n
       \<and> list_all (\<lambda>t. isSettled (state t)) (tasks q)"
proof (induction n)
  case 0
  then show ?case by (simp add: emptyQueues_def)
next
  case (Suc n)
  then obtain q where r: "run (drainAll n) emptyQueues = Some q" and l: "length (tasks q) = n"
    and s: "list_all (\<lambda>t. isSettled (state t)) (tasks q)"
    by blast
  from table_keys [OF r] have "dom (turnQueues q) = convId ` {0..<n}"
    by (simp add: submitted_drainAll)
  moreover have "convId n \<notin> convId ` {0..<n}"
    using inj_convId by (auto dest: injD)
  ultimately have f: "turnQueues q (convId n) = None"
    by (metis domIff)
  define t where "t = \<lparr>key = convId n, awaits = None :: nat option, state = Waiting\<rparr>"
  define q3 where "q3 = q\<lparr>tasks := tasks q @ [t\<lparr>state := Settled (Inr okResponse)\<rparr>],
                          turnQueues := (turnQueues q)(convId n \<mapsto> n)\<rparr>"
  have "run [Submit (convId n), Start (length (tasks q)),
             Finish (length (tasks q)) (Inr okResponse)] q
          = Some (q\<lparr>tasks := tasks q @ [t\<lparr>state := Settled (Inr okResponse)\<rparr>],
                    turnQueues := (turnQueues q)(convId n \<mapsto> length (tasks q))\<rparr>)"
    by (simp add: enqueueTurn_def Let_def canStart_def setState_def f t_def nth_append)
  then have "run [Submit (convId n), Start n, Finish n (Inr okResponse)] q = Some q3"
    by (simp only: l q3_def)
  with r have "run (drainAll (Suc n)) emptyQueues = Some q3"
    by (simp add: run_append)
  moreover have "length (tasks q3) = Suc n"
    by (simp add: q3_def l)
  moreover have "list_all (\<lambda>t. isSettled (state t)) (tasks q3)"
    using s by (simp add: q3_def isSettled_def)
  ultimately show ?case
    by blast
qed

lemma idle_entries_unbounded:
  "\<exists>es q. run es emptyQueues = Some q \<and> list_all (\<lambda>t. isSettled (state t)) (tasks q)
          \<and> card (dom (turnQueues q)) = n"
proof -
  from run_drainAll [of n] obtain q where r: "run (drainAll n) emptyQueues = Some q"
    and s: "list_all (\<lambda>t. isSettled (state t)) (tasks q)"
    by blast
  from table_keys [OF r] have "dom (turnQueues q) = convId ` {0..<n}"
    by (simp add: submitted_drainAll)
  then have "card (dom (turnQueues q)) = n"
    by (simp add: card_image inj_convId [THEN inj_on_subset])
  with r s show ?thesis
    by blast
qed

text \<open>
  C7 as stated fails: after one turn each of two conversations, both run to the end, no task
  is waiting or running and the table still holds both ids; and no number bounds the
  entries that a table can hold while every task is settled.
\<close>

theorem queue_table_never_pruned_counterexample:
  "run drainSchedule emptyQueues = Some drained
   \<and> list_all (\<lambda>t. isSettled (state t)) (tasks drained)
   \<and> turnQueues drained (js ''c1'') = Some 0
   \<and> turnQueues drained (js ''c2'') = Some 1
   \<and> \<not> (\<exists>B. \<forall>es q. run es emptyQueues = Some q
                      \<and> list_all (\<lambda>t. isSettled (state t)) (tasks q)
                    \<longrightarrow> card (dom (turnQueues q)) \<le> B)"
proof -
  have "\<not> (\<exists>B. \<forall>es q. run es emptyQueues = Some q
                      \<and> list_all (\<lambda>t. isSettled (state t)) (tasks q)
                    \<longrightarrow> card (dom (turnQueues q)) \<le> B)"
  proof
    assume "\<exists>B. \<forall>es q. run es emptyQueues = Some q
                      \<and> list_all (\<lambda>t. isSettled (state t)) (tasks q)
                    \<longrightarrow> card (dom (turnQueues q)) \<le> B"
    then obtain B where b: "\<And>es q. run es emptyQueues = Some q
                      \<Longrightarrow> list_all (\<lambda>t. isSettled (state t)) (tasks q)
                    \<Longrightarrow> card (dom (turnQueues q)) \<le> B"
      by blast
    from idle_entries_unbounded [of "Suc B"] obtain es q where
      "run es emptyQueues = Some q" "list_all (\<lambda>t. isSettled (state t)) (tasks q)"
      "card (dom (turnQueues q)) = Suc B"
      by blast
    with b [of es q] show False
      by simp
  qed
  then show ?thesis
    by (simp add: run_drainSchedule) (simp add: drained_def isSettled_def)
qed

end
